theory Spec2Isabelle
  imports Complex_Main "HOL-Library.Log_Nat"
begin


section \<open>Image stitching: the layout and compositing of \<open>generatePreview\<close> (src/App.tsx)\<close>

text \<open>
  The component \<open>App\<close> keeps a list of uploaded images with two captions each and, on
  request, stacks them on a fabric canvas: the first image in full, every later image
  as a caption band cut from its bottom edge, then the caption texts on top.

  The numbers of the source are read in two ways. In the model of the whole function,
  \<open>generatePreview\<close> with its state, objects and rejections, a JavaScript number is a
  real number: the arithmetic of the source is kept expression by expression and
  nothing is rounded. A dimension of a loaded image is a \<open>real option\<close> there, where
  \<open>None\<close> stands for a value that is missing (\<open>undefined\<close> or \<open>NaN\<close>). The numbers
  of the layout are modelled a second time as IEEE binary64 values, with rounding after
  every operation, overflow to infinity and \<open>NaN\<close>: the section on binary64 below,
  whose names end in \<open>64\<close>.
\<close>

subsection \<open>Data\<close>

datatype error = Error string

record caption =
  zh :: string
  jp :: string

record ImageItem =
  item_id :: string
  url :: string
  caption :: caption

record Rect =
  rect_left :: real
  rect_top :: real
  rect_width :: real
  rect_height :: real
  absolutePositioned :: bool

record FabricImage =
  width :: "real option"
  height :: "real option"
  img_left :: real
  img_top :: real
  scaleX :: real
  scaleY :: real
  selectable :: bool
  clipPath :: "Rect option"

record Shadow =
  color :: string
  blur :: real
  offsetX :: real
  offsetY :: real

text \<open>
  A \<open>fabric.FabricText\<close> with the options the source passes. \<open>opacity\<close> is passed
  for the background copy only; the other texts carry fabric's default 1.
\<close>

record FabricText =
  content :: string
  txt_left :: real
  txt_top :: real
  fontSize :: real
  fontFamily :: string
  fontWeight :: string
  fill :: string
  textAlign :: string
  originX :: string
  txt_selectable :: bool
  opacity :: real
  shadow :: Shadow

datatype fabric_object = ImageObject FabricImage | TextObject FabricText

text \<open>
  One pass of the drawing loop, as a record: \<open>topY\<close> is \<open>currentY\<close> on entry,
  \<open>heightPx\<close> the amount the pass adds to \<open>currentY\<close>, \<open>image\<close> the image object it
  adds to the canvas and \<open>texts\<close> the text objects it adds after the image, in order.
\<close>

record band =
  topY :: real
  heightPx :: real
  image :: FabricImage
  texts :: "FabricText list"

record fabric_canvas =
  canvas_width :: real
  canvas_height :: real
  backgroundColor :: string
  objects :: "fabric_object list"
  rendered :: bool
  disposed :: bool

text \<open>
  The state of the component that \<open>generatePreview\<close> reads and writes.
  \<open>canvasRef\<close> tells whether \<open>canvasRef.current\<close> is set (the attributes of the DOM
  element are not modelled: the fabric canvas built on it carries width and height),
  \<open>console\<close> collects the arguments of \<open>console.error\<close>, and \<open>timers\<close> the callbacks
  handed to \<open>setTimeout\<close> that have not run yet, each with its delay in milliseconds
  and the fabric canvas its closure holds.
\<close>

record app_state =
  images :: "ImageItem list"
  previewUrl :: string
  isGenerating :: bool
  canvasRef :: bool
  fabricCanvasRef :: "fabric_canvas option"
  console :: "error list"
  timers :: "(nat \<times> fabric_canvas) list"

subsection \<open>Loading\<close>

text \<open>
  \<open>x || d\<close> on a number: \<open>d\<close> replaces a value that is missing or zero.
\<close>

fun js_or :: "real option \<Rightarrow> real \<Rightarrow> real" where
  "js_or None d = d"
| "js_or (Some x) d = (if x = 0 then d else x)"

text \<open>
  \<open>loadFabricImage\<close>: the promise of \<open>fabric.FabricImage.fromURL\<close> is a parameter; it
  rejects (\<open>Inl\<close>) or resolves with an image or with nothing, and nothing is turned
  into a rejection.
\<close>

definition loadFabricImage ::
  "(string \<Rightarrow> error + FabricImage option) \<Rightarrow> string \<Rightarrow> error + FabricImage" where
  "loadFabricImage fromURL src =
     (case fromURL src of
        Inl e \<Rightarrow> Inl e
      | Inr None \<Rightarrow> Inl (Error ''Failed to load image'')
      | Inr (Some img) \<Rightarrow> Inr img)"

text \<open>
  \<open>Promise.all\<close>: every promise resolved, or the first rejection in list order. The
  source rejects with the rejection that happens first in time; when several loads
  fail, the two can differ in which error is logged, and in nothing else.
\<close>

fun Promise_all :: "(error + 'a) list \<Rightarrow> error + 'a list" where
  "Promise_all [] = Inr []"
| "Promise_all (p # ps) =
     (case p of
        Inl e \<Rightarrow> Inl e
      | Inr x \<Rightarrow> (case Promise_all ps of Inl e \<Rightarrow> Inl e | Inr xs \<Rightarrow> Inr (x # xs)))"

subsection \<open>Layout\<close>

definition CANVAS_WIDTH :: real where
  "CANVAS_WIDTH = 800"

definition firstImageScale :: "FabricImage \<Rightarrow> real" where
  "firstImageScale firstImage = CANVAS_WIDTH / js_or (width firstImage) 1"

definition firstImageHeight :: "FabricImage \<Rightarrow> real" where
  "firstImageHeight firstImage = js_or (height firstImage) 600 * firstImageScale firstImage"

definition CAPTION_HEIGHT :: "real \<Rightarrow> real" where
  "CAPTION_HEIGHT fih = min (max (fih * 0.15) 80) 120"

definition totalHeight :: "real \<Rightarrow> nat \<Rightarrow> real \<Rightarrow> real" where
  "totalHeight fih n ch = fih + (real n - 1) * ch"

subsection \<open>Caption texts\<close>

definition zhBackgroundText :: "string \<Rightarrow> real \<Rightarrow> FabricText" where
  "zhBackgroundText s zhTop =
     \<lparr>content = s, txt_left = CANVAS_WIDTH / 2, txt_top = zhTop, fontSize = 36,
      fontFamily = ''Yuanti, Noto Sans TC, sans-serif'', fontWeight = ''bold'',
      fill = ''#003153'', textAlign = ''center'', originX = ''center'',
      txt_selectable = False, opacity = 0.8,
      shadow = \<lparr>color = ''#003153'', blur = 2, offsetX = - 1, offsetY = - 1\<rparr>\<rparr>"

definition zhText :: "string \<Rightarrow> real \<Rightarrow> FabricText" where
  "zhText s zhTop =
     \<lparr>content = s, txt_left = CANVAS_WIDTH / 2, txt_top = zhTop, fontSize = 36,
      fontFamily = ''Yuanti, Noto Sans TC, sans-serif'', fontWeight = ''bold'',
      fill = ''white'', textAlign = ''center'', originX = ''center'',
      txt_selectable = False, opacity = 1,
      shadow = \<lparr>color = ''#003153'', blur = 2, offsetX = 2, offsetY = 2\<rparr>\<rparr>"

definition jpText :: "string \<Rightarrow> real \<Rightarrow> FabricText" where
  "jpText s jpTop =
     \<lparr>content = s, txt_left = CANVAS_WIDTH / 2, txt_top = jpTop, fontSize = 20,
      fontFamily = ''Noto Sans JP, sans-serif'', fontWeight = ''normal'',
      fill = ''white'', textAlign = ''center'', originX = ''center'',
      txt_selectable = False, opacity = 1,
      shadow = \<lparr>color = ''#000000'', blur = 0, offsetX = 1, offsetY = 1\<rparr>\<rparr>"

text \<open>
  The caption block of one pass (a non-empty string is truthy). \<open>currentY\<close> is the
  value after the pass has advanced it.
\<close>

definition captions :: "nat \<Rightarrow> real \<Rightarrow> real \<Rightarrow> real \<Rightarrow> ImageItem \<Rightarrow> FabricText list" where
  "captions i currentY fih ch imageData =
     (if zh (caption imageData) \<noteq> [] \<or> jp (caption imageData) \<noteq> [] then
        (let sectionTop = (if i = 0 then currentY - fih else currentY - ch);
             sectionHeight = (if i = 0 then fih else ch)
         in (if zh (caption imageData) \<noteq> [] then
               (let zhTop = sectionTop + sectionHeight
                              - (if jp (caption imageData) \<noteq> [] then 65 else 55)
                in [zhBackgroundText (zh (caption imageData)) zhTop,
                    zhText (zh (caption imageData)) zhTop])
             else [])
            @ (if jp (caption imageData) \<noteq> [] then
                 [jpText (jp (caption imageData)) (sectionTop + sectionHeight - 25)]
               else []))
      else [])"

subsection \<open>The drawing loop\<close>

text \<open>
  One pass of the loop \<open>for (let i = 0; i < loadedImages.length; i++)\<close>: the band it
  draws and the new \<open>currentY\<close>, or the rejection of \<open>img.clone()\<close>, which is a
  parameter.
\<close>

definition draw_band ::
  "(FabricImage \<Rightarrow> error + FabricImage) \<Rightarrow> real \<Rightarrow> real \<Rightarrow> nat \<Rightarrow> real
     \<Rightarrow> FabricImage \<Rightarrow> ImageItem \<Rightarrow> error + (band \<times> real)" where
  "draw_band clone fih ch i currentY img imageData =
     (if i = 0 then
        (let img' = img\<lparr>img_left := 0, img_top := currentY,
                        scaleX := CANVAS_WIDTH / js_or (width img) 1,
                        scaleY := fih / js_or (height img) 1,
                        selectable := False\<rparr>;
             currentY' = currentY + fih
         in Inr (\<lparr>topY = currentY, heightPx = fih, image = img',
                   texts = captions i currentY' fih ch imageData\<rparr>, currentY'))
      else
        (case clone img of
           Inl e \<Rightarrow> Inl e
         | Inr clonedImg \<Rightarrow>
             (let imgScale = CANVAS_WIDTH / js_or (width img) 1;
                  fullScaledHeight = js_or (height img) 600 * imgScale;
                  imgTop = currentY + ch - fullScaledHeight;
                  clonedImg1 = clonedImg\<lparr>img_left := 0, img_top := imgTop,
                                         scaleX := imgScale, scaleY := imgScale,
                                         selectable := False\<rparr>;
                  clipRect = \<lparr>rect_left = 0, rect_top = currentY,
                              rect_width = CANVAS_WIDTH, rect_height = ch,
                              absolutePositioned = True\<rparr>;
                  clonedImg2 = clonedImg1\<lparr>clipPath := Some clipRect\<rparr>;
                  currentY' = currentY + ch
              in Inr (\<lparr>topY = currentY, heightPx = ch, image = clonedImg2,
                        texts = captions i currentY' fih ch imageData\<rparr>, currentY'))))"

text \<open>
  The loop over \<open>loadedImages[i]\<close> and \<open>images[i]\<close>. It stops at the first rejection
  and then gives the error with the bands drawn so far.
\<close>

fun draw_loop ::
  "(FabricImage \<Rightarrow> error + FabricImage) \<Rightarrow> real \<Rightarrow> real \<Rightarrow> nat \<Rightarrow> real
     \<Rightarrow> (FabricImage \<times> ImageItem) list \<Rightarrow> band list \<Rightarrow> (error \<times> band list) + band list" where
  "draw_loop clone fih ch i currentY [] drawn = Inr drawn"
| "draw_loop clone fih ch i currentY ((img, imageData) # rest) drawn =
     (case draw_band clone fih ch i currentY img imageData of
        Inl e \<Rightarrow> Inl (e, drawn)
      | Inr (b, currentY') \<Rightarrow> draw_loop clone fih ch (Suc i) currentY' rest (drawn @ [b]))"

text \<open>The objects on the canvas, in the order of the calls of \<open>fabricCanvas.add\<close>.\<close>

definition band_objects :: "band \<Rightarrow> fabric_object list" where
  "band_objects b = ImageObject (image b) # map TextObject (texts b)"

definition objects_of :: "band list \<Rightarrow> fabric_object list" where
  "objects_of bs = concat (map band_objects bs)"

subsection \<open>\<open>generatePreview\<close>\<close>

text \<open>The \<open>catch\<close> block: log the error, clear the busy flag.\<close>

definition catch :: "error \<Rightarrow> app_state \<Rightarrow> app_state" where
  "catch e st = st\<lparr>console := console st @ [e], isGenerating := False\<rparr>"

text \<open>
  \<open>generatePreview\<close> as a function on the state. The result is the outcome of the
  promise the async function returns: \<open>Inr\<close> the state when it resolves, \<open>Inl\<close> when it
  rejects. Nothing before the \<open>try\<close> block can throw, and its \<open>catch\<close> block takes
  every rejection raised inside it, so no branch gives \<open>Inl\<close>. Reading a property of
  \<open>loadedImages[0]\<close> when there is none throws a TypeError inside the \<open>try\<close> block.
  The fabric canvas is an object shared with \<open>fabricCanvasRef.current\<close>: what the loop
  adds to it, up to a rejection, is what the reference holds afterwards.
\<close>

definition generatePreview ::
  "(string \<Rightarrow> error + FabricImage option) \<Rightarrow> (FabricImage \<Rightarrow> error + FabricImage)
     \<Rightarrow> app_state \<Rightarrow> error + app_state" where
  "generatePreview fromURL clone st =
     (if length (images st) = 0 then Inr st
      else
        (let st1 = st\<lparr>isGenerating := True\<rparr> in
         if \<not> canvasRef st1 then Inr st1
         else
           (let st2 = (case fabricCanvasRef st1 of
                         Some old \<Rightarrow> st1\<lparr>fabricCanvasRef := Some (old\<lparr>disposed := True\<rparr>)\<rparr>
                       | None \<Rightarrow> st1)
            in case Promise_all (map (\<lambda>img. loadFabricImage fromURL (url img)) (images st2)) of
                 Inl e \<Rightarrow> Inr (catch e st2)
               | Inr loadedImages \<Rightarrow>
                   (case loadedImages of
                      [] \<Rightarrow> Inr (catch (Error ''TypeError'') st2)
                    | firstImage # _ \<Rightarrow>
                        (let fih = firstImageHeight firstImage;
                             ch = CAPTION_HEIGHT fih;
                             th = totalHeight fih (length (images st2)) ch;
                             fabricCanvas = \<lparr>canvas_width = CANVAS_WIDTH, canvas_height = th,
                                             backgroundColor = ''white'', objects = [],
                                             rendered = False, disposed = False\<rparr>
                         in case draw_loop clone fih ch 0 0 (zip loadedImages (images st2)) [] of
                              Inl (e, drawn) \<Rightarrow>
                                Inr (catch e
                                  (st2\<lparr>fabricCanvasRef :=
                                         Some (fabricCanvas\<lparr>objects := objects_of drawn\<rparr>)\<rparr>))
                            | Inr bands \<Rightarrow>
                                (let finished = fabricCanvas\<lparr>objects := objects_of bands,
                                                             rendered := True\<rparr>
                                 in Inr (st2\<lparr>fabricCanvasRef := Some finished,
                                             timers := timers st2 @ [(100, finished)]\<rparr>)))))))"

text \<open>
  The callback of \<open>setTimeout\<close>, run when the oldest pending timer fires: it reads the
  canvas back through \<open>toDataURL\<close> (a parameter) and publishes the result. The
  timer holds the canvas as it was when the timer was set; a later call of
  \<open>generatePreview\<close> that disposes the canvas before the callback runs is not
  followed.
\<close>

definition fire_timer :: "(fabric_canvas \<Rightarrow> string) \<Rightarrow> app_state \<Rightarrow> app_state" where
  "fire_timer toDataURL st =
     (case timers st of
        [] \<Rightarrow> st
      | (delay, fabricCanvas) # rest \<Rightarrow>
          st\<lparr>timers := rest, previewUrl := toDataURL fabricCanvas, isGenerating := False\<rparr>)"

section \<open>The numbers of the layout in binary64\<close>

text \<open>
  A JavaScript number is a finite value, an infinity or \<open>NaN\<close>. The sign of zero is
  not kept: \<open>-0\<close> counts as \<open>0\<close>, which matters only for the sign of a quotient by
  zero and of a zero result. \<open>round64\<close> rounds a real number to the nearest binary64
  value, ties to the even significand: \<open>binade x\<close> is the exponent \<open>e\<close> with
  \<open>2 ^ e \<le> \<bar>x\<bar> < 2 ^ (e + 1)\<close>, not below the exponent -1022 of the subnormal
  numbers, the spacing of the values around \<open>x\<close> is \<open>2 ^ (e - 52)\<close>, and a result of
  magnitude \<open>2 ^ 1024\<close> or more is an infinity. Every operation computes the exact
  result of its finite operands and rounds it; the operands need not be binary64
  values themselves, the results are.
\<close>

datatype js_number = Num real | PosInf | NegInf | NaN

definition binade :: "real \<Rightarrow> int" where
  "binade x = max (bitlen \<lfloor>\<bar>x\<bar> * 2 ^ 1074\<rfloor> - 1075) (- 1022)"

definition round_half_even :: "real \<Rightarrow> int" where
  "round_half_even y =
     (let f = \<lfloor>y\<rfloor> in
      if y - of_int f < 1 / 2 then f
      else if 1 / 2 < y - of_int f then f + 1
      else if even f then f else f + 1)"

definition round64 :: "real \<Rightarrow> js_number" where
  "round64 x =
     (let q = 2 powi (binade x - 52);
          m = of_int (round_half_even (\<bar>x\<bar> / q)) * q
      in if 2 ^ 1024 \<le> m then (if 0 < x then PosInf else NegInf)
         else Num (sgn x * m))"

definition js_neg :: "js_number \<Rightarrow> js_number" where
  "js_neg a = (case a of Num x \<Rightarrow> Num (- x) | PosInf \<Rightarrow> NegInf | NegInf \<Rightarrow> PosInf | NaN \<Rightarrow> NaN)"

fun js_add :: "js_number \<Rightarrow> js_number \<Rightarrow> js_number" where
  "js_add (Num a) (Num b) = round64 (a + b)"
| "js_add NaN b = NaN"
| "js_add a NaN = NaN"
| "js_add PosInf NegInf = NaN"
| "js_add NegInf PosInf = NaN"
| "js_add PosInf b = PosInf"
| "js_add a PosInf = PosInf"
| "js_add NegInf b = NegInf"
| "js_add a NegInf = NegInf"

definition js_sub :: "js_number \<Rightarrow> js_number \<Rightarrow> js_number" where
  "js_sub a b = js_add a (js_neg b)"

fun js_mul :: "js_number \<Rightarrow> js_number \<Rightarrow> js_number" where
  "js_mul (Num a) (Num b) = round64 (a * b)"
| "js_mul NaN b = NaN"
| "js_mul a NaN = NaN"
| "js_mul (Num a) b = (if a = 0 then NaN else if (0 < a) = (b = PosInf) then PosInf else NegInf)"
| "js_mul a (Num b) = (if b = 0 then NaN else if (0 < b) = (a = PosInf) then PosInf else NegInf)"
| "js_mul a b = (if a = b then PosInf else NegInf)"

fun js_div :: "js_number \<Rightarrow> js_number \<Rightarrow> js_number" where
  "js_div (Num a) (Num b) =
     (if b = 0 then (if a = 0 then NaN else if 0 < a then PosInf else NegInf)
      else round64 (a / b))"
| "js_div NaN b = NaN"
| "js_div a NaN = NaN"
| "js_div (Num a) b = Num 0"
| "js_div a (Num b) = (if (0 \<le> b) = (a = PosInf) then PosInf else NegInf)"
| "js_div a b = NaN"

fun js_max :: "js_number \<Rightarrow> js_number \<Rightarrow> js_number" where
  "js_max (Num a) (Num b) = Num (max a b)"
| "js_max NaN b = NaN"
| "js_max a NaN = NaN"
| "js_max PosInf b = PosInf"
| "js_max a PosInf = PosInf"
| "js_max NegInf b = b"
| "js_max a NegInf = a"

fun js_min :: "js_number \<Rightarrow> js_number \<Rightarrow> js_number" where
  "js_min (Num a) (Num b) = Num (min a b)"
| "js_min NaN b = NaN"
| "js_min a NaN = NaN"
| "js_min NegInf b = NegInf"
| "js_min a NegInf = NegInf"
| "js_min PosInf b = b"
| "js_min a PosInf = a"

definition js_or64 :: "js_number \<Rightarrow> js_number \<Rightarrow> js_number" where
  "js_or64 x d = (if x = NaN \<or> x = Num 0 then d else x)"

fun is_finite :: "js_number \<Rightarrow> bool" where
  "is_finite (Num x) = True"
| "is_finite x = False"

subsection \<open>The layout of \<open>generatePreview\<close> in binary64\<close>

text \<open>
  The numbers that \<open>generatePreview\<close> computes from the sizes of the loaded images
  (lines 137 to 214 of the source): the height of the canvas and, for every pass of the
  loop, \<open>currentY\<close> on entry, the amount added to it, and left, top, scaleX, scaleY and
  clip rectangle (left, top, width, height) of the image object. A size is the pair of
  \<open>img.width\<close> and \<open>img.height\<close>, with \<open>NaN\<close> for a missing value. The caption
  texts, the state and the rejections are those of the model above. The literal
  \<open>0.15\<close> is the binary64 value nearest to 15/100.
\<close>

definition firstImageScale64 :: "js_number \<Rightarrow> js_number" where
  "firstImageScale64 w = js_div (Num 800) (js_or64 w (Num 1))"

definition firstImageHeight64 :: "js_number \<Rightarrow> js_number \<Rightarrow> js_number" where
  "firstImageHeight64 w h = js_mul (js_or64 h (Num 600)) (firstImageScale64 w)"

definition CAPTION_HEIGHT64 :: "js_number \<Rightarrow> js_number" where
  "CAPTION_HEIGHT64 fih = js_min (js_max (js_mul fih (round64 (15 / 100))) (Num 80)) (Num 120)"

definition totalHeight64 :: "js_number \<Rightarrow> nat \<Rightarrow> js_number \<Rightarrow> js_number" where
  "totalHeight64 fih n ch = js_add fih (js_mul (js_sub (Num (real n)) (Num 1)) ch)"

record band64 =
  topY64 :: js_number
  heightPx64 :: js_number
  left64 :: js_number
  top64 :: js_number
  scaleX64 :: js_number
  scaleY64 :: js_number
  clip64 :: "(js_number \<times> js_number \<times> js_number \<times> js_number) option"

definition draw_band64 ::
  "js_number \<Rightarrow> js_number \<Rightarrow> nat \<Rightarrow> js_number \<Rightarrow> js_number \<times> js_number \<Rightarrow> band64 \<times> js_number" where
  "draw_band64 fih ch i currentY img =
     (case img of (w, h) \<Rightarrow>
        if i = 0 then
          (\<lparr>topY64 = currentY, heightPx64 = fih, left64 = Num 0, top64 = currentY,
            scaleX64 = js_div (Num 800) (js_or64 w (Num 1)),
            scaleY64 = js_div fih (js_or64 h (Num 1)),
            clip64 = None\<rparr>,
           js_add currentY fih)
        else
          (let imgScale = js_div (Num 800) (js_or64 w (Num 1));
               fullScaledHeight = js_mul (js_or64 h (Num 600)) imgScale;
               imgTop = js_sub (js_add currentY ch) fullScaledHeight
           in (\<lparr>topY64 = currentY, heightPx64 = ch, left64 = Num 0, top64 = imgTop,
                 scaleX64 = imgScale, scaleY64 = imgScale,
                 clip64 = Some (Num 0, currentY, Num 800, ch)\<rparr>,
               js_add currentY ch)))"

fun draw_loop64 ::
  "js_number \<Rightarrow> js_number \<Rightarrow> nat \<Rightarrow> js_number \<Rightarrow> (js_number \<times> js_number) list \<Rightarrow> band64 list" where
  "draw_loop64 fih ch i currentY [] = []"
| "draw_loop64 fih ch i currentY (img # rest) =
     (case draw_band64 fih ch i currentY img of
        (b, currentY') \<Rightarrow> b # draw_loop64 fih ch (Suc i) currentY' rest)"

record layout64 =
  canvas_width64 :: js_number
  canvas_height64 :: js_number
  bands64 :: "band64 list"

definition generatePreview64 :: "(js_number \<times> js_number) list \<Rightarrow> layout64 option" where
  "generatePreview64 loadedImages =
     (case loadedImages of
        [] \<Rightarrow> None
      | (w0, h0) # _ \<Rightarrow>
          (let fih = firstImageHeight64 w0 h0;
               ch = CAPTION_HEIGHT64 fih;
               th = totalHeight64 fih (length loadedImages) ch
           in Some \<lparr>canvas_width64 = Num 800, canvas_height64 = th,
                     bands64 = draw_loop64 fih ch 0 (Num 0) loadedImages\<rparr>))"

subsection \<open>Sizes and magnitudes\<close>

text \<open>
  \<open>plausible_size\<close> holds of what a decoded image can have as a width or height: a
  missing value, zero, or a number from 1 to \<open>2 ^ 53\<close>. \<open>mag_le a B\<close> says that
  \<open>a\<close> is finite with magnitude at most \<open>B\<close>, and \<open>band_finite\<close> that every number
  of a band is finite.
\<close>

fun mag_le :: "js_number \<Rightarrow> real \<Rightarrow> bool" where
  "mag_le (Num r) B = (\<bar>r\<bar> \<le> B)"
| "mag_le x B = False"

definition plausible_size :: "js_number \<Rightarrow> bool" where
  "plausible_size x = (case x of Num r \<Rightarrow> r = 0 \<or> (1 \<le> r \<and> r \<le> 2 ^ 53) | NaN \<Rightarrow> True | _ \<Rightarrow> False)"

definition band_finite :: "band64 \<Rightarrow> bool" where
  "band_finite b =
     (is_finite (topY64 b) \<and> is_finite (heightPx64 b) \<and> is_finite (left64 b) \<and>
      is_finite (top64 b) \<and> is_finite (scaleX64 b) \<and> is_finite (scaleY64 b))"

subsection \<open>The clamp of the specification\<close>

text \<open>
  The specification writes the height of a caption band as \<open>clamp(x, 80, 120)\<close>; this
  is that function, word by word, to be compared with the \<open>Math.min(Math.max(...))\<close> of
  the source.
\<close>

definition spec_clamp :: "real \<Rightarrow> real \<Rightarrow> real \<Rightarrow> real" where
  "spec_clamp x lo hi = (if x < lo then lo else if hi < x then hi else x)"

subsection \<open>Sample inputs\<close>

text \<open>
  Concrete images, items, loaders and states, on which the theorems below are run.
\<close>

definition sample_image :: "real \<Rightarrow> real \<Rightarrow> FabricImage" where
  "sample_image w h =
     \<lparr>width = Some w, height = Some h, img_left = 0, img_top = 0, scaleX = 1, scaleY = 1,
      selectable = True, clipPath = None\<rparr>"

definition sample_item :: "string \<Rightarrow> string \<Rightarrow> string \<Rightarrow> ImageItem" where
  "sample_item u z j = \<lparr>item_id = u, url = u, caption = \<lparr>zh = z, jp = j\<rparr>\<rparr>"

definition sample_fromURL :: "string \<Rightarrow> error + FabricImage option" where
  "sample_fromURL src =
     (if src = ''a'' then Inr (Some (sample_image 1000 600))
      else if src = ''b'' then Inr (Some (sample_image 400 300))
      else Inl (Error ''not found''))"

definition sample_state :: "ImageItem list \<Rightarrow> app_state" where
  "sample_state items =
     \<lparr>images = items, previewUrl = ''old'', isGenerating = False, canvasRef = True,
      fabricCanvasRef = None, console = [], timers = []\<rparr>"

definition sample_loaded :: "FabricImage list" where
  "sample_loaded = [sample_image 1000 600, sample_image 400 300, sample_image 1000 600]"

definition sample_items :: "ImageItem list" where
  "sample_items = [sample_item ''a'' [] [], sample_item ''b'' ''x'' [], sample_item ''a'' ''y'' ''z'']"

definition sample_bands :: "band list" where
  "sample_bands = projr (draw_loop Inr 480 80 0 0 (zip sample_loaded sample_items) [])"


definition failing_clone :: "FabricImage \<Rightarrow> error + FabricImage" where
  "failing_clone img = Inl (Error ''clone'')"

definition narrow_images :: "(js_number \<times> js_number) list" where
  "narrow_images = [(Num 300, Num 200)]"

definition wide_images :: "(js_number \<times> js_number) list" where
  "wide_images = [(Num 1400, Num 1000), (Num 1400, Num 1000), (Num 1400, Num 1000)]"

definition degenerate_sizes :: "(js_number \<times> js_number) list" where
  "degenerate_sizes = [(Num 0, NaN), (NaN, Num 0)]"

section \<open>Facts about the drawing loop\<close>

subsection \<open>One pass\<close>

lemma draw_band_Inr:
  assumes "draw_band clone fih ch i y img d = Inr (b, y')"
  shows "topY b = y" and "heightPx b = (if i = 0 then fih else ch)"
    and "y' = y + heightPx b" and "texts b = captions i y' fih ch d"
  using assms
  by (auto simp: draw_band_def Let_def split: if_splits sum.splits)

lemma draw_band_first:
  assumes "draw_band clone fih ch 0 y img d = Inr (b, y')"
  shows "image b = img\<lparr>img_left := 0, img_top := y, scaleX := 800 / js_or (width img) 1,
            scaleY := fih / js_or (height img) 1, selectable := False\<rparr>"
  using assms
  by (auto simp: draw_band_def Let_def CANVAS_WIDTH_def)

lemma draw_band_later:
  assumes "draw_band clone fih ch i y img d = Inr (b, y')" and "0 < i"
  shows "clipPath (image b) = Some \<lparr>rect_left = 0, rect_top = y, rect_width = 800,
            rect_height = ch, absolutePositioned = True\<rparr>"
    and "img_left (image b) = 0"
    and "scaleX (image b) = 800 / js_or (width img) 1"
    and "scaleY (image b) = 800 / js_or (width img) 1"
    and "img_top (image b) = y + ch - js_or (height img) 600 * (800 / js_or (width img) 1)"
  using assms
  by (auto simp: draw_band_def Let_def CANVAS_WIDTH_def split: sum.splits)

lemma captions_after_pass:
  "captions i (y + (if i = 0 then fih else ch)) fih ch d =
     (if zh (caption d) \<noteq> [] then
        [zhBackgroundText (zh (caption d))
           (y + (if i = 0 then fih else ch) - (if jp (caption d) \<noteq> [] then 65 else 55)),
         zhText (zh (caption d))
           (y + (if i = 0 then fih else ch) - (if jp (caption d) \<noteq> [] then 65 else 55))]
      else []) @
     (if jp (caption d) \<noteq> [] then [jpText (jp (caption d)) (y + (if i = 0 then fih else ch) - 25)]
      else [])"
  by (simp add: captions_def Let_def)

subsection \<open>The loop\<close>

text \<open>
  The bands already drawn are only carried along, so a run is described by the run that
  starts with none; such a run draws one band per item, each by one pass that starts
  where the band before it ends.
\<close>

lemma draw_loop_acc:
  "draw_loop clone fih ch i y items drawn = Inr bands \<longleftrightarrow>
     (\<exists>new. draw_loop clone fih ch i y items [] = Inr new \<and> bands = drawn @ new)"
proof (induction items arbitrary: i y drawn bands)
  case Nil
  then show ?case by auto
next
  case (Cons a items)
  obtain img d where a: "a = (img, d)" by (cases a)
  show ?case
  proof (cases "draw_band clone fih ch i y img d")
    case (Inl e)
    then show ?thesis by (simp add: a)
  next
    case (Inr r)
    obtain b y' where r: "r = (b, y')" by (cases r)
    have 1: "draw_loop clone fih ch i y (a # items) drawn = draw_loop clone fih ch (Suc i) y' items (drawn @ [b])"
      by (simp add: a Inr r)
    have 2: "draw_loop clone fih ch i y (a # items) [] = draw_loop clone fih ch (Suc i) y' items [b]"
      by (simp add: a Inr r)
    show ?thesis
      unfolding 1 2
      using Cons.IH[of "Suc i" y' "drawn @ [b]" bands] Cons.IH[of "Suc i" y' "[b]"]
      by auto
  qed
qed

lemma draw_loop_Cons:
  "draw_loop clone fih ch i y ((img, d) # rest) [] = Inr bands \<longleftrightarrow>
     (\<exists>b y' bs. draw_band clone fih ch i y img d = Inr (b, y') \<and>
        draw_loop clone fih ch (Suc i) y' rest [] = Inr bs \<and> bands = b # bs)"
proof (cases "draw_band clone fih ch i y img d")
  case (Inl e)
  then show ?thesis by simp
next
  case (Inr r)
  obtain b y' where r: "r = (b, y')" by (cases r)
  show ?thesis
    using draw_loop_acc[of clone fih ch "Suc i" y' rest "[b]" bands]
    by (auto simp: Inr r)
qed

lemma draw_loop_length:
  "draw_loop clone fih ch i y items [] = Inr bands \<Longrightarrow> length bands = length items"
proof (induction items arbitrary: i y bands)
  case Nil
  then show ?case by simp
next
  case (Cons a items)
  obtain img d where a: "a = (img, d)" by (cases a)
  from Cons.prems obtain b y' bs where
    "draw_loop clone fih ch (Suc i) y' items [] = Inr bs" "bands = b # bs"
    unfolding a draw_loop_Cons by blast
  with Cons.IH show ?case by auto
qed

lemma draw_loop_nth:
  "draw_loop clone fih ch i y items [] = Inr bands \<Longrightarrow> k < length items \<Longrightarrow>
     draw_band clone fih ch (i + k) (topY (bands ! k)) (fst (items ! k)) (snd (items ! k))
       = Inr (bands ! k, topY (bands ! k) + heightPx (bands ! k))"
proof (induction items arbitrary: i y bands k)
  case Nil
  then show ?case by simp
next
  case (Cons a items)
  obtain img d where a: "a = (img, d)" by (cases a)
  from Cons.prems(1) obtain b y' bs where
    b: "draw_band clone fih ch i y img d = Inr (b, y')" and
    bs: "draw_loop clone fih ch (Suc i) y' items [] = Inr bs" and
    bands: "bands = b # bs"
    unfolding a draw_loop_Cons by blast
  show ?case
  proof (cases k)
    case 0
    then show ?thesis
      using b draw_band_Inr(1,3)[OF b] by (simp add: bands a)
  next
    case (Suc j)
    then have "j < length items" using Cons.prems(2) by simp
    from Cons.IH[OF bs this] show ?thesis
      by (simp add: bands Suc)
  qed
qed

lemma draw_loop_first:
  "draw_loop clone fih ch i y items [] = Inr bands \<Longrightarrow> items \<noteq> [] \<Longrightarrow> topY (bands ! 0) = y"
proof (cases items)
  case Nil
  assume "items \<noteq> []"
  with Nil show ?thesis by simp
next
  case (Cons a rest)
  assume run: "draw_loop clone fih ch i y items [] = Inr bands"
  obtain img d where a: "a = (img, d)" by (cases a)
  from run obtain b y' bs where
    b: "draw_band clone fih ch i y img d = Inr (b, y')" and bands: "bands = b # bs"
    unfolding Cons a draw_loop_Cons by blast
  show ?thesis using draw_band_Inr(1)[OF b] by (simp add: bands)
qed

lemma draw_loop_next:
  "draw_loop clone fih ch i y items [] = Inr bands \<Longrightarrow> Suc k < length items \<Longrightarrow>
     topY (bands ! Suc k) = topY (bands ! k) + heightPx (bands ! k)"
proof (induction items arbitrary: i y bands k)
  case Nil
  then show ?case by simp
next
  case (Cons a items)
  obtain img d where a: "a = (img, d)" by (cases a)
  from Cons.prems(1) obtain b y' bs where
    b: "draw_band clone fih ch i y img d = Inr (b, y')" and
    bs: "draw_loop clone fih ch (Suc i) y' items [] = Inr bs" and
    bands: "bands = b # bs"
    unfolding a draw_loop_Cons by blast
  have ne: "items \<noteq> []" using Cons.prems(2) by auto
  show ?case
  proof (cases k)
    case 0
    then show ?thesis
      using draw_loop_first[OF bs ne] draw_band_Inr(1,3)[OF b] by (simp add: bands)
  next
    case (Suc j)
    then have "Suc j < length items" using Cons.prems(2) by simp
    from Cons.IH[OF bs this] show ?thesis
      by (simp add: bands Suc)
  qed
qed

lemma draw_loop_band:
  assumes "draw_loop clone fih ch 0 0 (zip loadedImages items) [] = Inr bands"
    and "length loadedImages = length items" and "i < length items"
  shows "draw_band clone fih ch i (topY (bands ! i)) (loadedImages ! i) (items ! i)
           = Inr (bands ! i, topY (bands ! i) + heightPx (bands ! i))"
  using draw_loop_nth[OF assms(1), of i] assms(2,3) by simp

lemma draw_loop_heights:
  assumes "draw_loop clone fih ch 0 0 items [] = Inr bands" and "i < length items"
  shows "heightPx (bands ! i) = (if i = 0 then fih else ch)"
  using draw_band_Inr(2)[OF draw_loop_nth[OF assms]] by simp

lemma draw_loop_texts:
  assumes "draw_loop clone fih ch 0 0 (zip loadedImages items) [] = Inr bands"
    and "length loadedImages = length items" and "i < length items"
  shows "texts (bands ! i) =
     (if zh (caption (items ! i)) \<noteq> [] then
        [zhBackgroundText (zh (caption (items ! i)))
           (topY (bands ! i) + heightPx (bands ! i)
              - (if jp (caption (items ! i)) \<noteq> [] then 65 else 55)),
         zhText (zh (caption (items ! i)))
           (topY (bands ! i) + heightPx (bands ! i)
              - (if jp (caption (items ! i)) \<noteq> [] then 65 else 55))]
      else []) @
     (if jp (caption (items ! i)) \<noteq> [] then
        [jpText (jp (caption (items ! i))) (topY (bands ! i) + heightPx (bands ! i) - 25)]
      else [])"
proof -
  note b = draw_loop_band[OF assms]
  have h: "heightPx (bands ! i) = (if i = 0 then fih else ch)"
    by (rule draw_band_Inr(2)[OF b])
  have "texts (bands ! i) =
      captions i (topY (bands ! i) + (if i = 0 then fih else ch)) fih ch (items ! i)"
    using draw_band_Inr(4)[OF b] h by simp
  then show ?thesis
    unfolding captions_after_pass h by simp
qed

lemma draw_loop_succeeds:
  "(\<forall>x \<in> set items. \<exists>c. clone (fst x) = Inr c) \<Longrightarrow>
     \<exists>bands. draw_loop clone fih ch i y items drawn = Inr bands"
proof (induction items arbitrary: i y drawn)
  case Nil
  then show ?case by simp
next
  case (Cons a items)
  obtain img d where a: "a = (img, d)" by (cases a)
  from Cons.prems obtain c where c: "clone img = Inr c" by (auto simp: a)
  have "\<exists>b y'. draw_band clone fih ch i y img d = Inr (b, y')"
    by (simp add: draw_band_def Let_def c)
  then obtain b y' where b: "draw_band clone fih ch i y img d = Inr (b, y')"
    by blast
  from Cons.prems have "\<forall>x \<in> set items. \<exists>c. clone (fst x) = Inr c" by simp
  from Cons.IH[OF this, of "Suc i" y' "drawn @ [b]"] show ?case
    by (simp add: a b)
qed

lemma objects_of_append: "objects_of (xs @ ys) = objects_of xs @ objects_of ys"
  by (simp add: objects_of_def)

lemma objects_of_nth:
  "i < length bands \<Longrightarrow>
     objects_of bands = objects_of (take i bands) @ band_objects (bands ! i)
        @ objects_of (drop (Suc i) bands)"
proof -
  assume "i < length bands"
  then have "bands = take i bands @ [bands ! i] @ drop (Suc i) bands"
    by (simp add: id_take_nth_drop)
  then have "objects_of bands = objects_of (take i bands @ [bands ! i] @ drop (Suc i) bands)"
    by simp
  then show ?thesis
    by (simp only: objects_of_append) (simp add: objects_of_def)
qed

lemma objects_of_band:
  "i < length bands \<Longrightarrow>
     objects_of bands = objects_of (take i bands)
        @ ImageObject (image (bands ! i)) # map TextObject (texts (bands ! i))
        @ objects_of (drop (Suc i) bands)"
  using objects_of_nth[of i bands] by (simp add: band_objects_def)

subsection \<open>The outcomes of \<open>generatePreview\<close>\<close>


lemma Promise_all_length: "Promise_all ps = Inr xs \<Longrightarrow> length xs = length ps"
  by (induction ps arbitrary: xs) (auto split: sum.splits)

lemma loaded_length:
  assumes "Promise_all (map (\<lambda>img. loadFabricImage fromURL (url img)) (images st))
             = Inr (image0 # others)"
  shows "length (image0 # others) = length (images st)"
  using Promise_all_length[OF assms] by simp

lemma generatePreview_canvas:
  assumes "images st \<noteq> []" and "canvasRef st"
    and "Promise_all (map (\<lambda>img. loadFabricImage fromURL (url img)) (images st))
           = Inr (image0 # others)"
    and "draw_loop clone (firstImageHeight image0) (CAPTION_HEIGHT (firstImageHeight image0)) 0 0
           (zip (image0 # others) (images st)) [] = Inr bands"
  shows "\<exists>st' c. generatePreview fromURL clone st = Inr st' \<and> fabricCanvasRef st' = Some c \<and>
     objects c = objects_of bands \<and> canvas_width c = 800 \<and>
     canvas_height c = firstImageHeight image0
        + (real (length (images st)) - 1) * CAPTION_HEIGHT (firstImageHeight image0)"
  using assms
  by (simp add: generatePreview_def Let_def catch_def totalHeight_def CANVAS_WIDTH_def
        split: option.splits)

lemma generatePreview_loaded:
  assumes "images st \<noteq> []" "canvasRef st"
    and "Promise_all (map (\<lambda>img. loadFabricImage fromURL (url img)) (images st)) = Inr (image0 # others)"
  shows "\<exists>st'. generatePreview fromURL clone st = Inr st' \<and>
     (\<exists>c. fabricCanvasRef st' = Some c \<and> canvas_width c = CANVAS_WIDTH \<and>
        canvas_height c = totalHeight (firstImageHeight image0) (length (images st))
           (CAPTION_HEIGHT (firstImageHeight image0)))"
  using assms
  by (auto simp: generatePreview_def Let_def catch_def split: option.splits sum.splits prod.splits)



lemma generatePreview_draws:
  assumes "images st \<noteq> []" and "canvasRef st"
    and "Promise_all (map (\<lambda>img. loadFabricImage fromURL (url img)) (images st))
           = Inr (image0 # others)"
    and "draw_loop clone (firstImageHeight image0) (CAPTION_HEIGHT (firstImageHeight image0)) 0 0
           (zip (image0 # others) (images st)) [] = Inr bands"
  shows "\<exists>st' c. generatePreview fromURL clone st = Inr st' \<and> fabricCanvasRef st' = Some c \<and>
     objects c = objects_of bands \<and> rendered c \<and> \<not> disposed c \<and>
     previewUrl st' = previewUrl st \<and> isGenerating st' \<and> console st' = console st \<and>
     timers st' = timers st @ [(100, c)]"
  using assms
  by (simp add: generatePreview_def Let_def catch_def split: option.splits)

subsection \<open>The sample inputs\<close>

lemma sample_state_fields:
  "images (sample_state items) = items" "canvasRef (sample_state items)"
  "previewUrl (sample_state items) = ''old''" "timers (sample_state items) = []"
  "console (sample_state items) = []" "fabricCanvasRef (sample_state items) = None"
  by (simp_all add: sample_state_def)

lemma sample_nonempty:
  "images (sample_state sample_items) \<noteq> []" "canvasRef (sample_state sample_items)"
  by (simp_all add: sample_state_fields sample_items_def)


lemma sample_layout:
  "firstImageHeight (sample_image 1000 600) = 480"
  "CAPTION_HEIGHT 480 = 80"
  by (simp_all add: firstImageHeight_def firstImageScale_def CANVAS_WIDTH_def sample_image_def
        CAPTION_HEIGHT_def)

lemma sample_loading:
  "Promise_all (map (\<lambda>img. loadFabricImage sample_fromURL (url img)) sample_items)
     = Inr (sample_image 1000 600 # [sample_image 400 300, sample_image 1000 600])"
  by (simp add: sample_items_def sample_item_def sample_fromURL_def loadFabricImage_def)

lemma sample_run:
  "draw_loop Inr 480 80 0 0 (zip sample_loaded sample_items) [] = Inr sample_bands"
  by (simp add: sample_bands_def sample_loaded_def sample_items_def draw_band_def Let_def)

lemma sample_draw_run:
  "draw_loop Inr (firstImageHeight (sample_image 1000 600))
       (CAPTION_HEIGHT (firstImageHeight (sample_image 1000 600))) 0 0
       (zip (sample_image 1000 600 # [sample_image 400 300, sample_image 1000 600])
          (images (sample_state sample_items))) []
     = Inr sample_bands"
  using sample_run by (simp add: sample_state_fields sample_layout sample_loaded_def)

lemma sample_clone_fails:
  "draw_loop failing_clone 480 80 0 0 (zip sample_loaded sample_items) []
     = Inl (Error ''clone'', [sample_bands ! 0])"
  by (simp add: sample_bands_def sample_loaded_def sample_items_def draw_band_def Let_def
        failing_clone_def)

lemma sample_clone_run:
  "Promise_all (map (\<lambda>img. loadFabricImage sample_fromURL (url img))
       (images (sample_state sample_items)))
     = Inr (sample_image 1000 600 # [sample_image 400 300, sample_image 1000 600])"
  "draw_loop failing_clone (firstImageHeight (sample_image 1000 600))
       (CAPTION_HEIGHT (firstImageHeight (sample_image 1000 600))) 0 0
       (zip (sample_image 1000 600 # [sample_image 400 300, sample_image 1000 600])
          (images (sample_state sample_items))) []
     = Inl (Error ''clone'', [sample_bands ! 0])"
  using sample_clone_fails
  by (simp_all add: sample_state_fields sample_loading sample_layout sample_loaded_def)

lemma sample_bottoms:
  "topY (sample_bands ! 0) = 0" "heightPx (sample_bands ! 0) = 480"
  "topY (sample_bands ! 1) = 480" "heightPx (sample_bands ! 1) = 80"
  "topY (sample_bands ! Suc 0) = 480" "heightPx (sample_bands ! Suc 0) = 80"
  "topY (sample_bands ! 2) = 560" "heightPx (sample_bands ! 2) = 80"
  by (simp_all add: sample_bands_def sample_loaded_def sample_items_def draw_band_def Let_def)

lemma sample_captions:
  "zh (caption (images (sample_state sample_items) ! 0)) = []"
  "jp (caption (images (sample_state sample_items) ! 0)) = []"
  "zh (caption (images (sample_state sample_items) ! 1)) = ''x''"
  "jp (caption (images (sample_state sample_items) ! 1)) = []"
  "zh (caption (images (sample_state sample_items) ! 2)) = ''y''"
  "jp (caption (images (sample_state sample_items) ! 2)) = ''z''"
  by (simp_all add: sample_state_fields sample_items_def sample_item_def)

lemma sample_count: "length (images (sample_state sample_items)) = 3"
  by (simp add: sample_state_fields sample_items_def)

section \<open>Facts about the binary64 numbers\<close>

subsection \<open>Rounding\<close>

lemma bitlen_eq:
  fixes m :: int
  assumes "2 ^ k \<le> m" and "m < 2 ^ Suc k"
  shows "bitlen m = int k + 1"
proof -
  have "(0::int) < 2 ^ k" by simp
  with assms(1) have pos: "0 < m" by linarith
  from bitlen_bounds[OF pos] have b: "2 ^ nat (bitlen m - 1) \<le> m" "m < 2 ^ nat (bitlen m)"
    by simp_all
  have "(2::int) ^ k < 2 ^ nat (bitlen m)" using assms(1) b(2) by linarith
  then have 1: "k < nat (bitlen m)" by (simp add: power_strict_increasing_iff)
  have "(2::int) ^ nat (bitlen m - 1) < 2 ^ Suc k" using assms(2) b(1) by linarith
  then have 2: "nat (bitlen m - 1) < Suc k" by (simp only: power_strict_increasing_iff one_less_numeral_iff semiring_norm)
  from 1 2 show ?thesis by linarith
qed

lemma binade_eq:
  assumes "2 powi e \<le> \<bar>x\<bar>" and "\<bar>x\<bar> < 2 powi (e + 1)" and "- 1022 \<le> e"
  shows "binade x = e"
proof -
  define k where "k = nat (e + 1074)"
  have e: "e = int k - 1074" using assms(3) by (simp add: k_def)
  have p: "(2::real) powi e * 2 ^ 1074 = 2 ^ k"
    unfolding e by (simp add: power_int_diff)
  have p1: "(2::real) powi (e + 1) * 2 ^ 1074 = 2 ^ Suc k"
    unfolding e by (simp add: power_int_diff power_int_add)
  have lo: "(2::real) ^ k \<le> \<bar>x\<bar> * 2 ^ 1074"
    using assms(1) p by (metis mult_right_mono zero_le_numeral zero_le_power)
  have hi: "\<bar>x\<bar> * 2 ^ 1074 < (2::real) ^ Suc k"
    using assms(2) p1 by (metis mult_strict_right_mono zero_less_numeral zero_less_power)
  let ?m = "\<lfloor>\<bar>x\<bar> * 2 ^ 1074\<rfloor>"
  have "(2::int) ^ k \<le> ?m" using lo by (simp add: le_floor_iff)
  moreover have "?m < 2 ^ Suc k" using hi by (simp add: floor_less_iff)
  ultimately have "bitlen ?m = int k + 1" by (rule bitlen_eq)
  then show ?thesis using assms(3) by (simp add: binade_def e)
qed

lemma binade_ge: "- 1022 \<le> binade x"
  by (simp add: binade_def)

lemma binade_upper: "\<bar>x\<bar> < 2 powi (binade x + 1)"
proof -
  define s :: real where "s = 2 ^ 1074"
  define m where "m = \<lfloor>\<bar>x\<bar> * s\<rfloor>"
  have s: "0 < s" by (simp add: s_def)
  have bin: "binade x = max (bitlen m - 1075) (- 1022)" by (simp add: binade_def m_def s_def)
  have up: "\<bar>x\<bar> * s < of_int m + 1" unfolding m_def by linarith
  have m0: "0 \<le> m" unfolding m_def using s by (simp add: zero_le_floor)
  have "of_int m + 1 \<le> (2::real) powi (bitlen m)"
  proof (cases "0 < m")
    case True
    from bitlen_bounds[OF True] have "m < 2 ^ nat (bitlen m)" by simp
    then have "m + 1 \<le> 2 ^ nat (bitlen m)" by simp
    then have "of_int (m + 1) \<le> (of_int (2 ^ nat (bitlen m)) :: real)"
      by (simp only: of_int_le_iff)
    then have "of_int m + 1 \<le> (2::real) ^ nat (bitlen m)" by simp
    moreover have "(2::real) ^ nat (bitlen m) = 2 powi (bitlen m)"
      using bitlen_nonneg[of m] by (simp add: power_int_def)
    ultimately show ?thesis by simp
  next
    case False
    with m0 have z: "m = 0" by simp
    show ?thesis unfolding z by simp
  qed
  with up have "\<bar>x\<bar> * s < (2::real) powi (bitlen m)" by linarith
  then have "\<bar>x\<bar> < (2::real) powi (bitlen m) / s"
    using s by (simp add: pos_less_divide_eq)
  also have "\<dots> = 2 powi (bitlen m - 1074)"
    unfolding s_def by (simp add: power_int_diff)
  also have "\<dots> \<le> 2 powi (binade x + 1)"
    by (rule power_int_increasing) (simp_all add: bin)
  finally show ?thesis .
qed

lemma binade_lower: "2 powi binade x \<le> \<bar>x\<bar> \<or> binade x = - 1022"
proof -
  define s :: real where "s = 2 ^ 1074"
  define m where "m = \<lfloor>\<bar>x\<bar> * s\<rfloor>"
  have s: "0 < s" by (simp add: s_def)
  have bin: "binade x = max (bitlen m - 1075) (- 1022)" by (simp add: binade_def m_def s_def)
  show ?thesis
  proof (cases "0 < m")
    case True
    from bitlen_bounds[OF True] have "2 ^ nat (bitlen m - 1) \<le> m" by simp
    then have "(of_int (2 ^ nat (bitlen m - 1)) :: real) \<le> of_int m"
      by (simp only: of_int_le_iff)
    then have "(2::real) ^ nat (bitlen m - 1) \<le> of_int m" by simp
    moreover have "of_int m \<le> \<bar>x\<bar> * s" unfolding m_def by simp
    ultimately have "(2::real) ^ nat (bitlen m - 1) \<le> \<bar>x\<bar> * s" by linarith
    moreover have "1 \<le> bitlen m" using True by (simp add: bitlen_alt_def)
    then have "(2::real) ^ nat (bitlen m - 1) = 2 powi (bitlen m - 1)"
      by (simp add: power_int_def)
    ultimately have "(2::real) powi (bitlen m - 1) \<le> \<bar>x\<bar> * s" by simp
    then have "(2::real) powi (bitlen m - 1) / s \<le> \<bar>x\<bar>"
      using s by (simp add: pos_divide_le_eq)
    moreover have "(2::real) powi (bitlen m - 1) / s = 2 powi (bitlen m - 1075)"
      unfolding s_def by (simp add: power_int_diff)
    ultimately have l: "(2::real) powi (bitlen m - 1075) \<le> \<bar>x\<bar>" by simp
    show ?thesis
    proof (cases "- 1022 \<le> bitlen m - 1075")
      case True
      then have "binade x = bitlen m - 1075" by (simp add: bin)
      with l show ?thesis by simp
    next
      case False
      then show ?thesis by (simp add: bin)
    qed
  next
    case False
    then have "bitlen m = 0" by (simp add: bitlen_eq_zero_iff)
    then show ?thesis by (simp add: bin)
  qed
qed

lemma round_half_even_nonneg: "0 \<le> y \<Longrightarrow> 0 \<le> round_half_even y"
  by (auto simp: round_half_even_def Let_def)

lemma round_half_even_le:
  assumes "y \<le> of_int n"
  shows "round_half_even y \<le> n"
proof -
  have f: "\<lfloor>y\<rfloor> \<le> n" using assms by (simp add: floor_le_iff)
  show ?thesis
  proof (cases "\<lfloor>y\<rfloor> = n")
    case True
    then have "of_int n \<le> y" by (metis of_int_floor_le)
    with assms have "y = of_int n" by simp
    then show ?thesis by (simp add: round_half_even_def)
  next
    case False
    with f have "\<lfloor>y\<rfloor> + 1 \<le> n" by simp
    then show ?thesis by (auto simp: round_half_even_def Let_def)
  qed
qed

lemma round_half_even_near:
  assumes "of_int n \<le> y" and "y < of_int n + 1 / 2"
  shows "round_half_even y = n"
proof -
  have "\<lfloor>y\<rfloor> = n" using assms by (simp add: floor_eq_iff)
  then show ?thesis using assms by (simp add: round_half_even_def)
qed

lemma round64_Num:
  assumes "2 powi e \<le> \<bar>x\<bar>" and "\<bar>x\<bar> < 2 powi (e + 1)" and "- 1022 \<le> e" and "e \<le> 1022"
  shows "round64 x = Num (sgn x * (of_int (round_half_even (\<bar>x\<bar> / 2 powi (e - 52))) * 2 powi (e - 52)))"
proof -
  have b: "binade x = e" by (rule binade_eq[OF assms(1-3)])
  let ?q = "(2::real) powi (e - 52)"
  have q: "0 < ?q" by simp
  have "\<bar>x\<bar> / ?q < 2 powi (e + 1) / ?q" using assms(2) q by (simp add: divide_strict_right_mono)
  also have "\<dots> = 2 ^ 53" by (simp add: power_int_diff power_int_add)
  finally have "\<bar>x\<bar> / ?q \<le> of_int (2 ^ 53)" by simp
  then have "round_half_even (\<bar>x\<bar> / ?q) \<le> 2 ^ 53" by (rule round_half_even_le)
  then have "(of_int (round_half_even (\<bar>x\<bar> / ?q)) :: real) \<le> of_int (2 ^ 53)"
    by (simp only: of_int_le_iff)
  then have "of_int (round_half_even (\<bar>x\<bar> / ?q)) * ?q \<le> 2 ^ 53 * ?q"
    using q by (simp add: mult_right_mono)
  also have "2 ^ 53 * ?q = 2 powi (e + 1)"
    by (simp add: power_int_diff power_int_add)
  also have "\<dots> \<le> 2 powi 1023" using assms(4) by (intro power_int_increasing) simp_all
  also have "\<dots> < (2::real) ^ 1024" by simp
  finally have "\<not> 2 ^ 1024 \<le> of_int (round_half_even (\<bar>x\<bar> / ?q)) * ?q" by simp
  then show ?thesis by (simp add: round64_def b Let_def)
qed

lemma round64_eval:
  assumes "2 powi e \<le> \<bar>x\<bar>" and "\<bar>x\<bar> < 2 powi (e + 1)" and "- 1022 \<le> e" and "e \<le> 1022"
    and "round_half_even (\<bar>x\<bar> / 2 powi (e - 52)) = n"
    and "r = sgn x * (of_int n * 2 powi (e - 52))"
  shows "round64 x = Num r"
  using round64_Num[OF assms(1-4)] assms(5,6) by simp

lemma round64_magnitude:
  fixes x :: real
  defines "m \<equiv> real_of_int (round_half_even (\<bar>x\<bar> / 2 powi (binade x - 52))) * 2 powi (binade x - 52)"
  shows "0 \<le> m" and "m \<le> 2 powi (binade x + 1)"
proof -
  let ?q = "(2::real) powi (binade x - 52)"
  have q: "0 < ?q" by simp
  have "0 \<le> \<bar>x\<bar> / ?q" by simp
  then have "0 \<le> round_half_even (\<bar>x\<bar> / ?q)" by (rule round_half_even_nonneg)
  then show "0 \<le> m" unfolding m_def using q by simp
  have "\<bar>x\<bar> / ?q < 2 powi (binade x + 1) / ?q"
    using binade_upper[of x] q by (simp add: divide_strict_right_mono)
  also have "\<dots> = 2 ^ 53" by (simp add: power_int_diff power_int_add)
  finally have "\<bar>x\<bar> / ?q \<le> of_int (2 ^ 53)" by simp
  then have "round_half_even (\<bar>x\<bar> / ?q) \<le> 2 ^ 53" by (rule round_half_even_le)
  then have "(of_int (round_half_even (\<bar>x\<bar> / ?q)) :: real) \<le> of_int (2 ^ 53)"
    by (simp only: of_int_le_iff)
  then have "m \<le> 2 ^ 53 * ?q"
    unfolding m_def using q by (simp add: mult_right_mono)
  also have "2 ^ 53 * ?q = 2 powi (binade x + 1)"
    by (simp add: power_int_diff power_int_add)
  finally show "m \<le> 2 powi (binade x + 1)" .
qed

lemma abs_sgn_mult_le: "0 \<le> (m::real) \<Longrightarrow> \<bar>sgn x * m\<bar> \<le> m"
  by (simp add: abs_mult sgn_real_def)

lemma round64_below:
  assumes "\<bar>x\<bar> < 2 ^ k" and "k \<le> 1023"
  shows "\<exists>r. round64 x = Num r \<and> \<bar>r\<bar> \<le> 2 ^ k"
proof -
  let ?m = "real_of_int (round_half_even (\<bar>x\<bar> / 2 powi (binade x - 52))) * 2 powi (binade x - 52)"
  have e: "binade x + 1 \<le> int k"
  proof (cases "2 powi binade x \<le> \<bar>x\<bar>")
    case True
    with assms(1) have "(2::real) powi binade x < 2 powi (int k)" by simp
    then have "binade x < int k" by (rule power_int_le_imp_less_exp[rotated]) simp_all
    then show ?thesis by simp
  next
    case False
    with binade_lower[of x] have "binade x = - 1022" by simp
    then show ?thesis by simp
  qed
  have "?m \<le> 2 powi (binade x + 1)" by (rule round64_magnitude)
  also have "\<dots> \<le> 2 powi (int k)" using e by (intro power_int_increasing) simp_all
  finally have le: "?m \<le> 2 ^ k" by simp
  have "(2::real) ^ k \<le> 2 ^ 1023" using assms(2) by (intro power_increasing) simp_all
  also have "\<dots> < (2::real) ^ 1024" by simp
  finally have "\<not> 2 ^ 1024 \<le> ?m" using le by linarith
  then have r: "round64 x = Num (sgn x * ?m)" by (simp add: round64_def Let_def)
  have "0 \<le> ?m" by (rule round64_magnitude)
  then have "\<bar>sgn x * ?m\<bar> \<le> ?m" by (rule abs_sgn_mult_le)
  with le r show ?thesis by (intro exI[of _ "sgn x * ?m"]) simp
qed

lemma round64_near_power:
  assumes "2 ^ k \<le> \<bar>x\<bar>" and "\<bar>x\<bar> < 2 ^ k + 2 powi (int k - 53)" and "k \<le> 1022"
  shows "round64 x = Num (sgn x * 2 ^ k)"
proof -
  have "(2::real) powi (int k - 53) \<le> 2 powi (int k)"
    by (intro power_int_increasing) simp_all
  then have "\<bar>x\<bar> < 2 ^ k + 2 ^ k" using assms(2) by simp
  then have up: "\<bar>x\<bar> < 2 powi (int k + 1)" by (simp add: power_int_add)
  have lo: "2 powi (int k) \<le> \<bar>x\<bar>" using assms(1) by simp
  have k: "- 1022 \<le> int k" "int k \<le> 1022" using assms(3) by simp_all
  note r = round64_Num[OF lo up k]
  let ?q = "(2::real) powi (int k - 52)"
  have q: "0 < ?q" by simp
  have a: "of_int (2 ^ 52) \<le> \<bar>x\<bar> / ?q"
    using assms(1) q by (simp add: pos_le_divide_eq power_int_diff)
  have "\<bar>x\<bar> / ?q < (2 ^ k + 2 powi (int k - 53)) / ?q"
    using assms(2) q by (simp add: divide_strict_right_mono)
  also have "\<dots> = of_int (2 ^ 52) + 1 / 2"
    by (simp add: power_int_diff add_divide_distrib)
  finally have b: "\<bar>x\<bar> / ?q < of_int (2 ^ 52) + 1 / 2" .
  have "round_half_even (\<bar>x\<bar> / ?q) = 2 ^ 52" by (rule round_half_even_near[OF a b])
  then show ?thesis unfolding r by (simp add: power_int_diff)
qed

lemma round64_bound:
  assumes "\<bar>x\<bar> < 2 ^ k + 2 powi (int k - 53)" and "k \<le> 1022"
  shows "\<exists>r. round64 x = Num r \<and> \<bar>r\<bar> \<le> 2 ^ k"
proof (cases "\<bar>x\<bar> < 2 ^ k")
  case True
  then show ?thesis using assms(2) by (intro round64_below) simp_all
next
  case False
  then have "2 ^ k \<le> \<bar>x\<bar>" by simp
  from round64_near_power[OF this assms] show ?thesis
    by (simp add: abs_mult sgn_real_def)
qed

lemma round64_le:
  assumes "\<bar>x\<bar> \<le> 2 ^ k" and "k \<le> 1022"
  shows "\<exists>r. round64 x = Num r \<and> \<bar>r\<bar> \<le> 2 ^ k"
proof (rule round64_bound[OF _ assms(2)])
  have "0 < (2::real) powi (int k - 53)" by simp
  with assms(1) show "\<bar>x\<bar> < 2 ^ k + 2 powi (int k - 53)" by linarith
qed

subsection \<open>Magnitudes\<close>

lemma mag_le_Num: "mag_le a B \<Longrightarrow> \<exists>r. a = Num r \<and> \<bar>r\<bar> \<le> B"
  by (cases a) simp_all

lemma mag_le_finite: "mag_le a B \<Longrightarrow> is_finite a"
  by (cases a) simp_all

lemma mag_le_mono: "mag_le a B \<Longrightarrow> B \<le> C \<Longrightarrow> mag_le a C"
  by (cases a) simp_all

lemma round64_mag_le:
  "\<bar>x\<bar> < 2 ^ k + 2 powi (int k - 53) \<Longrightarrow> k \<le> 1022 \<Longrightarrow> mag_le (round64 x) (2 ^ k)"
  using round64_bound[of x k] by auto

lemma round64_mag_le_le: "\<bar>x\<bar> \<le> 2 ^ k \<Longrightarrow> k \<le> 1022 \<Longrightarrow> mag_le (round64 x) (2 ^ k)"
  using round64_le[of x k] by auto

lemma js_add_mag_le:
  assumes "mag_le a A" and "mag_le b B" and "A + B < 2 ^ k + 2 powi (int k - 53)" and "k \<le> 1022"
  shows "mag_le (js_add a b) (2 ^ k)"
proof -
  from assms(1,2) obtain x y where a: "a = Num x" "\<bar>x\<bar> \<le> A" and b: "b = Num y" "\<bar>y\<bar> \<le> B"
    by (auto dest!: mag_le_Num)
  have "\<bar>x + y\<bar> \<le> A + B" using a(2) b(2) by linarith
  with assms(3) have "\<bar>x + y\<bar> < 2 ^ k + 2 powi (int k - 53)" by linarith
  then show ?thesis unfolding a b by (simp add: round64_mag_le assms(4))
qed

lemma js_sub_mag_le:
  assumes "mag_le a A" and "mag_le b B" and "A + B < 2 ^ k + 2 powi (int k - 53)" and "k \<le> 1022"
  shows "mag_le (js_sub a b) (2 ^ k)"
proof -
  have "mag_le (js_neg b) B" using assms(2) by (cases b) (simp_all add: js_neg_def)
  from js_add_mag_le[OF assms(1) this assms(3,4)] show ?thesis by (simp add: js_sub_def)
qed

lemma js_mul_mag_le:
  assumes "mag_le a A" and "mag_le b B" and "A * B \<le> 2 ^ k" and "k \<le> 1022"
  shows "mag_le (js_mul a b) (2 ^ k)"
proof -
  from assms(1,2) obtain x y where a: "a = Num x" "\<bar>x\<bar> \<le> A" and b: "b = Num y" "\<bar>y\<bar> \<le> B"
    by (auto dest!: mag_le_Num)
  have "\<bar>x * y\<bar> \<le> A * B" unfolding abs_mult using a(2) b(2) by (intro mult_mono) simp_all
  with assms(3) have "\<bar>x * y\<bar> \<le> 2 ^ k" by linarith
  then show ?thesis unfolding a b by (simp add: round64_mag_le_le assms(4))
qed

lemma js_div_mag_le:
  assumes "mag_le a (2 ^ k)" and "1 \<le> d" and "k \<le> 1022"
  shows "mag_le (js_div a (Num d)) (2 ^ k)"
proof -
  from assms(1) obtain x where a: "a = Num x" "\<bar>x\<bar> \<le> 2 ^ k" by (auto dest!: mag_le_Num)
  have "\<bar>x / d\<bar> = \<bar>x\<bar> / d" using assms(2) by simp
  also have "\<dots> \<le> \<bar>x\<bar> / 1" using assms(2) by (intro divide_left_mono) simp_all
  finally have "\<bar>x / d\<bar> \<le> 2 ^ k" using a(2) by simp
  then show ?thesis unfolding a using assms(2) by (simp add: round64_mag_le_le assms(3))
qed

lemma js_or64_Num: "r \<noteq> 0 \<Longrightarrow> js_or64 (Num r) d = Num r"
  by (simp add: js_or64_def)

lemma plausible_or:
  assumes "plausible_size x" and "1 \<le> d" and "d \<le> 2 ^ 53"
  shows "\<exists>r. js_or64 x (Num d) = Num r \<and> 1 \<le> r \<and> r \<le> 2 ^ 53"
  using assms by (cases x) (auto simp: plausible_size_def js_or64_def)

lemma scale_mag_le:
  assumes "plausible_size w"
  shows "mag_le (js_div (Num 800) (js_or64 w (Num 1))) (2 ^ 10)"
proof -
  from plausible_or[OF assms, of 1] obtain r where r: "js_or64 w (Num 1) = Num r" "1 \<le> r" by auto
  have "mag_le (Num 800) (2 ^ 10)" by simp
  from js_div_mag_le[OF this r(2)] show ?thesis by (simp add: r(1))
qed

lemma scaled_height_mag_le:
  assumes "plausible_size w" and "plausible_size h"
  shows "mag_le (js_mul (js_or64 h (Num 600)) (js_div (Num 800) (js_or64 w (Num 1)))) (2 ^ 63)"
proof -
  from plausible_or[OF assms(2), of 600] obtain r where
    r: "js_or64 h (Num 600) = Num r" "1 \<le> r" "r \<le> 2 ^ 53" by auto
  have 1: "mag_le (Num r) (2 ^ 53)" using r(2,3) by simp
  show ?thesis unfolding r(1)
    by (rule js_mul_mag_le[OF 1 scale_mag_le[OF assms(1)]]) simp_all
qed

lemma caption_height_range:
  assumes "mag_le fih (2 ^ 63)"
  shows "\<exists>c. CAPTION_HEIGHT64 fih = Num c \<and> 80 \<le> c \<and> c \<le> 120"
proof -
  have "mag_le (round64 (15 / 100)) (2 ^ 0)" by (rule round64_mag_le_le) simp_all
  from js_mul_mag_le[OF assms this, of 63] have "mag_le (js_mul fih (round64 (15 / 100))) (2 ^ 63)"
    by simp
  then obtain x where "js_mul fih (round64 (15 / 100)) = Num x" by (auto dest!: mag_le_Num)
  then show ?thesis by (simp add: CAPTION_HEIGHT64_def)
qed

lemma round64_800: "round64 800 = Num 800"
  by (rule round64_eval[where e = 9 and n = "800 * 2 ^ 43"])
     (simp_all add: round_half_even_def)

lemma later_pass_finite:
  assumes "0 < i" and "mag_le y (2 ^ 100)" and "80 \<le> c" and "c \<le> 120"
    and "plausible_size w" and "plausible_size h"
    and "draw_band64 fih (Num c) i y (w, h) = (b, y')"
  shows "band_finite b \<and> mag_le y' (2 ^ 100)"
proof -
  have c: "mag_le (Num c) 120" using assms(3,4) by simp
  have y': "mag_le (js_add y (Num c)) (2 ^ 100)"
    by (rule js_add_mag_le[OF assms(2) c]) simp_all
  note s = scale_mag_le[OF assms(5)]
  note f = scaled_height_mag_le[OF assms(5,6)]
  have t: "mag_le (js_sub (js_add y (Num c)) (js_mul (js_or64 h (Num 600)) (js_div (Num 800) (js_or64 w (Num 1))))) (2 ^ 101)"
    by (rule js_sub_mag_le[OF y' f]) simp_all
  have b: "b = \<lparr>topY64 = y, heightPx64 = Num c, left64 = Num 0,
        top64 = js_sub (js_add y (Num c)) (js_mul (js_or64 h (Num 600)) (js_div (Num 800) (js_or64 w (Num 1)))),
        scaleX64 = js_div (Num 800) (js_or64 w (Num 1)),
        scaleY64 = js_div (Num 800) (js_or64 w (Num 1)),
        clip64 = Some (Num 0, y, Num 800, Num c)\<rparr>"
    and "y' = js_add y (Num c)"
    using assms(1,7) by (auto simp: draw_band64_def Let_def)
  then show ?thesis
    using y' mag_le_finite[OF assms(2)] mag_le_finite[OF s] mag_le_finite[OF t]
    by (simp add: band_finite_def)
qed

lemma later_loop_finite:
  assumes "80 \<le> c" and "c \<le> 120"
  shows "0 < i \<Longrightarrow> mag_le y (2 ^ 100) \<Longrightarrow>
     \<forall>img \<in> set imgs. plausible_size (fst img) \<and> plausible_size (snd img) \<Longrightarrow>
     \<forall>b \<in> set (draw_loop64 fih (Num c) i y imgs). band_finite b"
proof (induction imgs arbitrary: i y)
  case Nil
  then show ?case by simp
next
  case (Cons img imgs)
  obtain w h where img: "img = (w, h)" by (cases img)
  obtain b y' where p: "draw_band64 fih (Num c) i y (w, h) = (b, y')"
    by (cases "draw_band64 fih (Num c) i y (w, h)")
  have pl: "plausible_size w" "plausible_size h" using Cons.prems(3) by (simp_all add: img)
  from later_pass_finite[OF Cons.prems(1,2) assms pl p]
  have b: "band_finite b" and y': "mag_le y' (2 ^ 100)" by simp_all
  have rest: "\<forall>img \<in> set imgs. plausible_size (fst img) \<and> plausible_size (snd img)"
    using Cons.prems(3) by simp
  have "\<forall>b \<in> set (draw_loop64 fih (Num c) (Suc i) y' imgs). band_finite b"
    by (rule Cons.IH[OF _ y' rest]) simp
  with b show ?case by (simp add: img p)
qed

lemma total_height_finite:
  assumes "mag_le fih (2 ^ 63)" and "80 \<le> c" and "c \<le> 120" and "n \<le> 2 ^ 32"
  shows "is_finite (totalHeight64 fih n (Num c))"
proof -
  have n: "mag_le (Num (real n)) (2 ^ 32)"
    using assms(4) by (simp add: of_nat_le_iff[of n "2 ^ 32", where ?'a = real, simplified])
  have 1: "mag_le (Num 1) 1" by simp
  have a: "mag_le (js_sub (Num (real n)) (Num 1)) (2 ^ 33)"
    by (rule js_sub_mag_le[OF n 1]) simp_all
  have c: "mag_le (Num c) (2 ^ 7)" using assms(2,3) by simp
  have m: "mag_le (js_mul (js_sub (Num (real n)) (Num 1)) (Num c)) (2 ^ 40)"
    by (rule js_mul_mag_le[OF a c]) simp_all
  have "mag_le (js_add fih (js_mul (js_sub (Num (real n)) (Num 1)) (Num c))) (2 ^ 64)"
    by (rule js_add_mag_le[OF assms(1) m]) simp_all
  then show ?thesis by (simp add: totalHeight64_def mag_le_finite)
qed

subsection \<open>The loop in binary64\<close>

lemma draw_loop64_length: "length (draw_loop64 fih ch i y imgs) = length imgs"
  by (induction imgs arbitrary: i y) (auto split: prod.splits)

lemma draw_band64_facts:
  assumes "draw_band64 fih ch i y img = (b, y')"
  shows "topY64 b = y" and "heightPx64 b = (if i = 0 then fih else ch)"
    and "y' = js_add y (heightPx64 b)"
  using assms by (auto simp: draw_band64_def Let_def split: prod.splits if_splits)

lemma draw_loop64_Cons:
  "draw_loop64 fih ch i y (img # rest) =
     fst (draw_band64 fih ch i y img)
       # draw_loop64 fih ch (Suc i) (snd (draw_band64 fih ch i y img)) rest"
  by (simp split: prod.splits)

lemma draw_loop64_first: "imgs \<noteq> [] \<Longrightarrow> topY64 (draw_loop64 fih ch i y imgs ! 0) = y"
proof (cases imgs)
  case Nil
  assume "imgs \<noteq> []"
  with Nil show ?thesis by simp
next
  case (Cons img rest)
  obtain b y' where p: "draw_band64 fih ch i y img = (b, y')"
    by (cases "draw_band64 fih ch i y img")
  show ?thesis using draw_band64_facts(1)[OF p] by (simp add: Cons p)
qed

lemma draw_loop64_height:
  "k < length imgs \<Longrightarrow>
     heightPx64 (draw_loop64 fih ch i y imgs ! k) = (if i + k = 0 then fih else ch)"
proof (induction imgs arbitrary: i y k)
  case Nil
  then show ?case by simp
next
  case (Cons img rest)
  obtain b y' where p: "draw_band64 fih ch i y img = (b, y')"
    by (cases "draw_band64 fih ch i y img")
  show ?case
  proof (cases k)
    case 0
    then show ?thesis using draw_band64_facts(2)[OF p] by (simp add: p)
  next
    case (Suc j)
    then have "j < length rest" using Cons.prems by simp
    from Cons.IH[OF this, of "Suc i" y'] show ?thesis by (simp add: p Suc)
  qed
qed

lemma draw_loop64_next:
  "Suc k < length imgs \<Longrightarrow>
     topY64 (draw_loop64 fih ch i y imgs ! Suc k) =
       js_add (topY64 (draw_loop64 fih ch i y imgs ! k)) (heightPx64 (draw_loop64 fih ch i y imgs ! k))"
proof (induction imgs arbitrary: i y k)
  case Nil
  then show ?case by simp
next
  case (Cons img rest)
  obtain b y' where p: "draw_band64 fih ch i y img = (b, y')"
    by (cases "draw_band64 fih ch i y img")
  have ne: "rest \<noteq> []" using Cons.prems by auto
  show ?case
  proof (cases k)
    case 0
    then show ?thesis
      using draw_loop64_first[OF ne, of fih ch "Suc i" y'] draw_band64_facts(1,3)[OF p]
      by (simp add: p)
  next
    case (Suc j)
    then have "Suc j < length rest" using Cons.prems by simp
    from Cons.IH[OF this, of "Suc i" y'] show ?thesis by (simp add: p Suc)
  qed
qed

lemma generatePreview64_Cons:
  "generatePreview64 ((w0, h0) # rest) =
     Some \<lparr>canvas_width64 = Num 800,
           canvas_height64 = totalHeight64 (firstImageHeight64 w0 h0) (Suc (length rest))
              (CAPTION_HEIGHT64 (firstImageHeight64 w0 h0)),
           bands64 = draw_loop64 (firstImageHeight64 w0 h0)
              (CAPTION_HEIGHT64 (firstImageHeight64 w0 h0)) 0 (Num 0) ((w0, h0) # rest)\<rparr>"
  by (simp add: generatePreview64_def Let_def)

lemma first_band64:
  "draw_loop64 fih ch 0 (Num 0) ((w0, h0) # rest) ! 0 =
     \<lparr>topY64 = Num 0, heightPx64 = fih, left64 = Num 0, top64 = Num 0,
      scaleX64 = js_div (Num 800) (js_or64 w0 (Num 1)),
      scaleY64 = js_div fih (js_or64 h0 (Num 1)), clip64 = None\<rparr>"
  by (simp add: draw_band64_def)

lemma generatePreview64_first_band:
  assumes "w \<noteq> 0" and "h \<noteq> 0"
  shows "\<exists>l. generatePreview64 ((Num w, Num h) # sizes) = Some l \<and>
     bands64 l ! 0 =
       \<lparr>topY64 = Num 0, heightPx64 = js_mul (Num h) (js_div (Num 800) (Num w)),
        left64 = Num 0, top64 = Num 0,
        scaleX64 = js_div (Num 800) (Num w),
        scaleY64 = js_div (js_mul (Num h) (js_div (Num 800) (Num w))) (Num h),
        clip64 = None\<rparr> \<and>
     (sizes = [] \<longrightarrow> bands64 l = [bands64 l ! 0])"
proof -
  have o: "js_or64 (Num w) (Num 1) = Num w" "js_or64 (Num h) (Num 600) = Num h"
    "js_or64 (Num h) (Num 1) = Num h"
    using assms by (simp_all add: js_or64_Num)
  have f: "firstImageHeight64 (Num w) (Num h) = js_mul (Num h) (js_div (Num 800) (Num w))"
    unfolding firstImageHeight64_def firstImageScale64_def o ..
  show ?thesis
    unfolding generatePreview64_Cons
    by (simp only: option.sel layout64.select_convs first_band64 o f)
       (simp add: draw_band64_def o)
qed

lemma generatePreview64_tiling:
  fixes w0 h0 :: js_number and rest :: "(js_number \<times> js_number) list"
  defines "fih \<equiv> firstImageHeight64 w0 h0"
  defines "ch \<equiv> CAPTION_HEIGHT64 (firstImageHeight64 w0 h0)"
  shows "\<exists>l. generatePreview64 ((w0, h0) # rest) = Some l \<and>
     length (bands64 l) = Suc (length rest) \<and>
     topY64 (bands64 l ! 0) = Num 0 \<and>
     (\<forall>i. Suc i < length (bands64 l) \<longrightarrow>
        topY64 (bands64 l ! Suc i) = js_add (topY64 (bands64 l ! i)) (heightPx64 (bands64 l ! i))) \<and>
     heightPx64 (bands64 l ! 0) = fih \<and>
     (\<forall>i. 0 < i \<and> i < length (bands64 l) \<longrightarrow> heightPx64 (bands64 l ! i) = ch) \<and>
     canvas_height64 l = js_add fih (js_mul (js_sub (Num (real (Suc (length rest)))) (Num 1)) ch)"
proof -
  define bs where "bs = draw_loop64 fih ch 0 (Num 0) ((w0, h0) # rest)"
  have g: "generatePreview64 ((w0, h0) # rest) =
     Some \<lparr>canvas_width64 = Num 800,
           canvas_height64 = totalHeight64 fih (Suc (length rest)) ch, bands64 = bs\<rparr>"
    unfolding fih_def ch_def bs_def by (rule generatePreview64_Cons)
  have l: "length bs = Suc (length rest)"
    unfolding bs_def by (simp only: draw_loop64_length length_Cons)
  have t0: "topY64 (bs ! 0) = Num 0" unfolding bs_def by (rule draw_loop64_first) simp
  have step: "topY64 (bs ! Suc i) = js_add (topY64 (bs ! i)) (heightPx64 (bs ! i))"
    if "Suc i < length bs" for i
    unfolding bs_def by (rule draw_loop64_next) (use that l in simp)
  have h: "heightPx64 (bs ! i) = (if i = 0 then fih else ch)" if "i < length bs" for i
    unfolding bs_def
    using draw_loop64_height[of i "(w0, h0) # rest" fih ch 0 "Num 0"] that l
    by (simp del: draw_loop64.simps)
  have h0: "heightPx64 (bs ! 0) = fih" using h[of 0] l by simp
  show ?thesis
    unfolding g using l t0 step h h0
    by (simp add: totalHeight64_def)
qed

subsection \<open>The sample sizes, evaluated\<close>

lemma narrow_scale: "js_div (Num 800) (Num 300) = Num (6004799503160661 / 2 ^ 51)"
proof -
  have "round64 (800 / 300) = Num (6004799503160661 / 2 ^ 51)"
    by (rule round64_eval[where e = "1" and n = 6004799503160661]) (simp_all add: round_half_even_def)
  then show ?thesis by (simp add: js_sub_def js_neg_def)
qed

lemma narrow_height: "js_mul (Num 200) (Num (6004799503160661 / 2 ^ 51)) = Num (2345624805922133 / 2 ^ 42)"
proof -
  have "round64 (200 * (6004799503160661 / 2 ^ 51)) = Num (2345624805922133 / 2 ^ 42)"
    by (rule round64_eval[where e = "9" and n = 4691249611844266]) (simp_all add: round_half_even_def)
  then show ?thesis by (simp add: js_sub_def js_neg_def)
qed

lemma narrow_scaleY: "js_div (Num (2345624805922133 / 2 ^ 42)) (Num 200) = Num (1501199875790165 / 2 ^ 49)"
proof -
  have "round64 ((2345624805922133 / 2 ^ 42) / 200) = Num (1501199875790165 / 2 ^ 49)"
    by (rule round64_eval[where e = "1" and n = 6004799503160660]) (simp_all add: round_half_even_def)
  then show ?thesis by (simp add: js_sub_def js_neg_def)
qed

lemma wide_scale: "js_div (Num 800) (Num 1400) = Num (2573485501354569 / 2 ^ 52)"
proof -
  have "round64 (800 / 1400) = Num (2573485501354569 / 2 ^ 52)"
    by (rule round64_eval[where e = "-1" and n = 5146971002709138]) (simp_all add: round_half_even_def)
  then show ?thesis by (simp add: js_sub_def js_neg_def)
qed

lemma wide_height: "js_mul (Num 1000) (Num (2573485501354569 / 2 ^ 52)) = Num (5026338869833143 / 2 ^ 43)"
proof -
  have "round64 (1000 * (2573485501354569 / 2 ^ 52)) = Num (5026338869833143 / 2 ^ 43)"
    by (rule round64_eval[where e = "9" and n = 5026338869833143]) (simp_all add: round_half_even_def)
  then show ?thesis by (simp add: js_sub_def js_neg_def)
qed

lemma round64_15: "round64 (15 / 100) = Num (5404319552844595 / 2 ^ 55)"
  by (rule round64_eval[where e = "-3" and n = 5404319552844595]) (simp_all add: round_half_even_def)

lemma wide_caption: "js_mul (Num (5026338869833143 / 2 ^ 43)) (Num (5404319552844595 / 2 ^ 55)) = Num (6031606643799771 / 2 ^ 46)"
proof -
  have "round64 ((5026338869833143 / 2 ^ 43) * (5404319552844595 / 2 ^ 55)) = Num (6031606643799771 / 2 ^ 46)"
    by (rule round64_eval[where e = "6" and n = 6031606643799771]) (simp_all add: round_half_even_def)
  then show ?thesis by (simp add: js_sub_def js_neg_def)
qed

lemma three_minus_one: "js_sub (Num 3) (Num 1) = Num 2"
proof -
  have "round64 (3 + - 1) = Num 2"
    by (rule round64_eval[where e = "1" and n = 4503599627370496]) (simp_all add: round_half_even_def)
  then show ?thesis by (simp add: js_sub_def js_neg_def)
qed

lemma wide_two_captions: "js_mul (Num 2) (Num (6031606643799771 / 2 ^ 46)) = Num (6031606643799771 / 2 ^ 45)"
proof -
  have "round64 (2 * (6031606643799771 / 2 ^ 46)) = Num (6031606643799771 / 2 ^ 45)"
    by (rule round64_eval[where e = "7" and n = 6031606643799771]) (simp_all add: round_half_even_def)
  then show ?thesis by (simp add: js_sub_def js_neg_def)
qed

lemma wide_total: "js_add (Num (5026338869833143 / 2 ^ 43)) (Num (6031606643799771 / 2 ^ 45)) = Num (3267120265391543 / 2 ^ 42)"
proof -
  have "round64 ((5026338869833143 / 2 ^ 43) + (6031606643799771 / 2 ^ 45)) = Num (3267120265391543 / 2 ^ 42)"
    by (rule round64_eval[where e = "9" and n = 6534240530783086]) (simp_all add: round_half_even_def)
  then show ?thesis by (simp add: js_sub_def js_neg_def)
qed

lemma wide_y1: "js_add (Num 0) (Num (5026338869833143 / 2 ^ 43)) = Num (5026338869833143 / 2 ^ 43)"
proof -
  have "round64 (0 + (5026338869833143 / 2 ^ 43)) = Num (5026338869833143 / 2 ^ 43)"
    by (rule round64_eval[where e = "9" and n = 5026338869833143]) (simp_all add: round_half_even_def)
  then show ?thesis by (simp add: js_sub_def js_neg_def)
qed

lemma wide_y2: "js_add (Num (5026338869833143 / 2 ^ 43)) (Num (6031606643799771 / 2 ^ 46)) = Num (2890144850154057 / 2 ^ 42)"
proof -
  have "round64 ((5026338869833143 / 2 ^ 43) + (6031606643799771 / 2 ^ 46)) = Num (2890144850154057 / 2 ^ 42)"
    by (rule round64_eval[where e = "9" and n = 5780289700308114]) (simp_all add: round_half_even_def)
  then show ?thesis by (simp add: js_sub_def js_neg_def)
qed

lemma wide_y3: "js_add (Num (2890144850154057 / 2 ^ 42)) (Num (6031606643799771 / 2 ^ 46)) = Num (6534240530783085 / 2 ^ 43)"
proof -
  have "round64 ((2890144850154057 / 2 ^ 42) + (6031606643799771 / 2 ^ 46)) = Num (6534240530783085 / 2 ^ 43)"
    by (rule round64_eval[where e = "9" and n = 6534240530783085]) (simp_all add: round_half_even_def)
  then show ?thesis by (simp add: js_sub_def js_neg_def)
qed

lemma sample_scale64: "js_div (Num 800) (Num 1000) = Num (3602879701896397 / 2 ^ 52)"
proof -
  have "round64 (800 / 1000) = Num (3602879701896397 / 2 ^ 52)"
    by (rule round64_eval[where e = "-1" and n = 7205759403792794]) (simp_all add: round_half_even_def)
  then show ?thesis by simp
qed

lemma sample_height64: "js_mul (Num 600) (Num (3602879701896397 / 2 ^ 52)) = Num 480"
proof -
  have "round64 (600 * (3602879701896397 / 2 ^ 52)) = Num 480"
    by (rule round64_eval[where e = "8" and n = 8444249301319680]) (simp_all add: round_half_even_def)
  then show ?thesis by simp
qed

lemma sample_scaleY64: "js_div (Num 480) (Num 600) = Num (3602879701896397 / 2 ^ 52)"
proof -
  have "round64 (480 / 600) = Num (3602879701896397 / 2 ^ 52)"
    by (rule round64_eval[where e = "-1" and n = 7205759403792794]) (simp_all add: round_half_even_def)
  then show ?thesis by simp
qed

lemma narrow_first_height: "firstImageHeight64 (Num 300) (Num 200) = Num (2345624805922133 / 2 ^ 42)"
proof -
  have o: "js_or64 (Num 300) (Num 1) = Num 300" "js_or64 (Num 200) (Num 600) = Num 200"
    by (simp_all add: js_or64_Num)
  show ?thesis
    unfolding firstImageHeight64_def firstImageScale64_def o narrow_scale narrow_height ..
qed

lemma wide_first_height: "firstImageHeight64 (Num 1400) (Num 1000) = Num (5026338869833143 / 2 ^ 43)"
proof -
  have o: "js_or64 (Num 1400) (Num 1) = Num 1400" "js_or64 (Num 1000) (Num 600) = Num 1000"
    by (simp_all add: js_or64_Num)
  show ?thesis
    unfolding firstImageHeight64_def firstImageScale64_def o wide_scale wide_height ..
qed

lemma wide_caption_height:
  "CAPTION_HEIGHT64 (Num (5026338869833143 / 2 ^ 43)) = Num (6031606643799771 / 2 ^ 46)"
proof -
  have "js_min (js_max (Num (6031606643799771 / 2 ^ 46)) (Num 80)) (Num 120)
          = Num (6031606643799771 / 2 ^ 46)"
    by simp
  then show ?thesis
    unfolding CAPTION_HEIGHT64_def round64_15 wide_caption .
qed

lemma wide_total_height:
  "totalHeight64 (Num (5026338869833143 / 2 ^ 43)) 3 (Num (6031606643799771 / 2 ^ 46))
     = Num (3267120265391543 / 2 ^ 42)"
proof -
  have r: "Num (real 3) = Num 3" by simp
  show ?thesis
    unfolding totalHeight64_def r three_minus_one wide_two_captions wide_total ..
qed

section \<open>The claims\<close>

text \<open>
  Claim C1. For a non-empty list whose first image has loaded with width \<open>w\<close> and
  height \<open>h\<close> (both present and not zero), the height the first image takes is
  \<open>h * (800 / w)\<close>, the height of a caption band is that height times 0.15 clamped
  to the interval from 80 to 120, and the canvas that \<open>generatePreview\<close> creates has
  the height of the first image plus one caption band for every further item; for a
  single item it has the height of the first image.
\<close>

theorem C1_caption_band_and_canvas_height:
  assumes "images st \<noteq> []" and "canvasRef st"
    and "Promise_all (map (\<lambda>img. loadFabricImage fromURL (url img)) (images st)) = Inr (image0 # others)"
    and "width image0 = Some w" and "w \<noteq> 0" and "height image0 = Some h" and "h \<noteq> 0"
  shows "firstImageHeight image0 = h * (800 / w) \<and>
     CAPTION_HEIGHT (firstImageHeight image0) = spec_clamp (h * (800 / w) * 0.15) 80 120 \<and>
     (\<exists>st' c. generatePreview fromURL clone st = Inr st' \<and> fabricCanvasRef st' = Some c \<and>
        canvas_height c = h * (800 / w)
           + (real (length (images st)) - 1) * spec_clamp (h * (800 / w) * 0.15) 80 120 \<and>
        (length (images st) = 1 \<longrightarrow> canvas_height c = h * (800 / w)))"
proof -
  have fih: "firstImageHeight image0 = h * (800 / w)"
    using assms(4-7) by (simp add: firstImageHeight_def firstImageScale_def CANVAS_WIDTH_def)
  have ch: "CAPTION_HEIGHT x = spec_clamp (x * 0.15) 80 120" for x
    by (simp add: CAPTION_HEIGHT_def spec_clamp_def min_def max_def)
  from generatePreview_loaded[OF assms(1-3), of clone]
  obtain st' c where "generatePreview fromURL clone st = Inr st'" "fabricCanvasRef st' = Some c"
    "canvas_height c = totalHeight (firstImageHeight image0) (length (images st))
           (CAPTION_HEIGHT (firstImageHeight image0))"
    by blast
  then show ?thesis
    unfolding fih ch by (auto simp: totalHeight_def)
qed

theorem C1_witness:
  "(\<exists>st' c. generatePreview sample_fromURL Inr (sample_state sample_items) = Inr st' \<and>
      fabricCanvasRef st' = Some c \<and> canvas_height c = 640) \<and>
   (\<exists>st' c. generatePreview sample_fromURL Inr (sample_state [sample_item ''a'' [] []]) = Inr st' \<and>
      fabricCanvasRef st' = Some c \<and> canvas_height c = 480)"
proof -
  let ?one = "sample_state [sample_item ''a'' [] []]"
  have d: "width (sample_image 1000 600) = Some 1000" "(1000::real) \<noteq> 0"
    "height (sample_image 1000 600) = Some 600" "(600::real) \<noteq> 0"
    by (simp_all add: sample_image_def)
  have n: "length (images (sample_state sample_items)) = 3"
    by (simp add: sample_state_fields sample_items_def)
  have 1: "images ?one \<noteq> []" "canvasRef ?one" "length (images ?one) = 1"
    by (simp_all add: sample_state_fields)
  have 2: "Promise_all (map (\<lambda>img. loadFabricImage sample_fromURL (url img)) (images ?one))
             = Inr (sample_image 1000 600 # [])"
    by (simp add: sample_state_fields sample_item_def sample_fromURL_def loadFabricImage_def)
  from C1_caption_band_and_canvas_height[OF sample_nonempty sample_clone_run(1) d, of Inr]
  have a: "\<exists>st' c. generatePreview sample_fromURL Inr (sample_state sample_items) = Inr st' \<and>
      fabricCanvasRef st' = Some c \<and> canvas_height c = 640"
    unfolding n by (auto simp: spec_clamp_def)
  from C1_caption_band_and_canvas_height[OF 1(1,2) 2 d, of Inr]
  have b: "\<exists>st' c. generatePreview sample_fromURL Inr ?one = Inr st' \<and>
      fabricCanvasRef st' = Some c \<and> canvas_height c = 480"
    using 1(3) by auto
  from a b show ?thesis by blast
qed

text \<open>
  Claim C2. For every band \<open>i\<close> after the first, the canvas that \<open>generatePreview\<close>
  leaves holds, after the objects of the bands before it, the image object of the band
  and then its texts. Whatever the size of the image, its clip rectangle is the
  rectangle of the band: left 0, top the top of the band, width 800, height the caption
  height, in absolute coordinates. The image sits at left 0, and when its width \<open>w\<close>
  and height \<open>h\<close> are present and not zero it is scaled by \<open>800 / w\<close> in both
  directions and its top is the top of the band plus the caption height minus
  \<open>h * (800 / w)\<close>, so that its bottom edge is the bottom of the band.
\<close>

theorem C2_caption_band_image_on_canvas:
  fixes image0 :: FabricImage
  defines "ch \<equiv> CAPTION_HEIGHT (firstImageHeight image0)"
  assumes "images st \<noteq> []" and "canvasRef st"
    and "Promise_all (map (\<lambda>img. loadFabricImage fromURL (url img)) (images st))
           = Inr (image0 # others)"
    and "draw_loop clone (firstImageHeight image0) ch 0 0
           (zip (image0 # others) (images st)) [] = Inr bands"
    and "0 < i" and "i < length (images st)"
  shows "(\<exists>st' c. generatePreview fromURL clone st = Inr st' \<and> fabricCanvasRef st' = Some c \<and>
        objects c = objects_of (take i bands)
          @ ImageObject (image (bands ! i)) # map TextObject (texts (bands ! i))
          @ objects_of (drop (Suc i) bands)) \<and>
     clipPath (image (bands ! i)) =
       Some \<lparr>rect_left = 0, rect_top = topY (bands ! i), rect_width = 800,
             rect_height = ch, absolutePositioned = True\<rparr> \<and>
     heightPx (bands ! i) = ch \<and>
     img_left (image (bands ! i)) = 0 \<and>
     (\<forall>w h. width ((image0 # others) ! i) = Some w \<and> w \<noteq> 0 \<and>
            height ((image0 # others) ! i) = Some h \<and> h \<noteq> 0 \<longrightarrow>
        scaleX (image (bands ! i)) = 800 / w \<and> scaleY (image (bands ! i)) = 800 / w \<and>
        img_top (image (bands ! i)) = topY (bands ! i) + ch - h * (800 / w))"
proof -
  note len = loaded_length[OF assms(4)]
  note b = draw_loop_band[OF assms(5) len assms(7)]
  note l = draw_band_later[OF b assms(6)]
  have h: "heightPx (bands ! i) = ch"
    using draw_band_Inr(2)[OF b] assms(6) by simp
  have n: "i < length bands"
    using draw_loop_length[OF assms(5)] len assms(7) by simp
  from generatePreview_canvas[OF assms(2-4) assms(5)[unfolded ch_def]]
  obtain st' c where g: "generatePreview fromURL clone st = Inr st'" "fabricCanvasRef st' = Some c"
    "objects c = objects_of bands"
    by blast
  have "objects c = objects_of (take i bands)
          @ ImageObject (image (bands ! i)) # map TextObject (texts (bands ! i))
          @ objects_of (drop (Suc i) bands)"
    unfolding g(3) by (rule objects_of_band[OF n])
  with g(1,2) have e: "\<exists>st' c. generatePreview fromURL clone st = Inr st' \<and>
        fabricCanvasRef st' = Some c \<and>
        objects c = objects_of (take i bands)
          @ ImageObject (image (bands ! i)) # map TextObject (texts (bands ! i))
          @ objects_of (drop (Suc i) bands)"
    by blast
  show ?thesis using e h l by auto
qed

theorem C2_witness:
  "(\<exists>st' c. generatePreview sample_fromURL Inr (sample_state sample_items) = Inr st' \<and>
      fabricCanvasRef st' = Some c \<and>
      objects c = objects_of (take 1 sample_bands)
        @ ImageObject (image (sample_bands ! 1)) # map TextObject (texts (sample_bands ! 1))
        @ objects_of (drop 2 sample_bands)) \<and>
   clipPath (image (sample_bands ! 1)) =
       Some \<lparr>rect_left = 0, rect_top = 480, rect_width = 800, rect_height = 80,
             absolutePositioned = True\<rparr> \<and>
   scaleX (image (sample_bands ! 1)) = 2 \<and> scaleY (image (sample_bands ! 1)) = 2 \<and>
   img_top (image (sample_bands ! 1)) = - 40"
proof -
  have i: "(0::nat) < 1" "1 < length (images (sample_state sample_items))"
    by (simp_all add: sample_count)
  have d: "width ((sample_image 1000 600 # [sample_image 400 300, sample_image 1000 600]) ! 1)
             = Some 400 \<and> (400::real) \<noteq> 0 \<and>
           height ((sample_image 1000 600 # [sample_image 400 300, sample_image 1000 600]) ! 1)
             = Some 300 \<and> (300::real) \<noteq> 0"
    by (simp add: sample_image_def)
  note c = C2_caption_band_image_on_canvas[OF sample_nonempty sample_clone_run(1) sample_draw_run i]
  from c d have "scaleX (image (sample_bands ! 1)) = 800 / 400 \<and>
      scaleY (image (sample_bands ! 1)) = 800 / 400 \<and>
      img_top (image (sample_bands ! 1)) = topY (sample_bands ! 1)
        + CAPTION_HEIGHT (firstImageHeight (sample_image 1000 600)) - 300 * (800 / 400)"
    by blast
  with c show ?thesis by (simp add: sample_bottoms sample_layout numeral_2_eq_2)
qed



text \<open>
  Claim C4 says that the canvas height is the sum of the band heights. In binary64 it
  is not: for three images of 1400 by 1000 pixels the canvas height
  \<open>fih + (3 - 1) * ch\<close> is 742.8571428571429, and the sum of the band heights, which
  is where \<open>currentY\<close> ends, is 742.8571428571428.
\<close>

theorem C4_canvas_height_is_sum_counterexample:
  "canvas_height64 (the (generatePreview64 wide_images)) = Num (3267120265391543 / 2 ^ 42) \<and>
   foldl js_add (Num 0) (map heightPx64 (bands64 (the (generatePreview64 wide_images))))
     = Num (6534240530783085 / 2 ^ 43) \<and>
   canvas_height64 (the (generatePreview64 wide_images))
     \<noteq> foldl js_add (Num 0) (map heightPx64 (bands64 (the (generatePreview64 wide_images))))"
proof -
  let ?fih = "Num (5026338869833143 / 2 ^ 43)"
  let ?ch = "Num (6031606643799771 / 2 ^ 46)"
  let ?bs = "draw_loop64 ?fih ?ch 0 (Num 0) wide_images"
  have g: "generatePreview64 wide_images =
      Some \<lparr>canvas_width64 = Num 800, canvas_height64 = Num (3267120265391543 / 2 ^ 42),
            bands64 = ?bs\<rparr>"
  proof -
    have n: "Suc (length [(Num 1400, Num 1000), (Num 1400, Num 1000)]) = 3" by simp
    show ?thesis
      unfolding wide_images_def generatePreview64_Cons wide_first_height wide_caption_height n
        wide_total_height ..
  qed
  have n: "length wide_images = 3" by (simp add: wide_images_def)
  have l: "length ?bs = 3" by (simp add: draw_loop64_length n)
  have h: "heightPx64 (?bs ! 0) = ?fih" "heightPx64 (?bs ! 1) = ?ch" "heightPx64 (?bs ! 2) = ?ch"
    using draw_loop64_height[of 0 wide_images ?fih ?ch 0 "Num 0"]
      draw_loop64_height[of 1 wide_images ?fih ?ch 0 "Num 0"]
      draw_loop64_height[of 2 wide_images ?fih ?ch 0 "Num 0"]
    by (simp_all add: n)
  from l obtain b0 b1 b2 where bs: "?bs = [b0, b1, b2]"
    by (auto simp: numeral_3_eq_3 length_Suc_conv)
  have "map heightPx64 ?bs = [heightPx64 (?bs ! 0), heightPx64 (?bs ! 1), heightPx64 (?bs ! 2)]"
    unfolding bs by simp
  then have m: "map heightPx64 ?bs = [?fih, ?ch, ?ch]" by (simp only: h)
  have s: "foldl js_add (Num 0) [?fih, ?ch, ?ch] = Num (6534240530783085 / 2 ^ 43)"
    unfolding foldl.simps wide_y1 wide_y2 wide_y3 ..
  have c: "canvas_height64 (the (generatePreview64 wide_images)) = Num (3267120265391543 / 2 ^ 42)"
    by (simp only: g option.sel layout64.select_convs)
  have f: "foldl js_add (Num 0) (map heightPx64 (bands64 (the (generatePreview64 wide_images))))
      = Num (6534240530783085 / 2 ^ 43)"
    by (simp only: g option.sel layout64.select_convs m s)
  show ?thesis unfolding c f by simp
qed

text \<open>
  Claim C4, amended. There is one band per item; the first band starts at 0, every
  band starts at the top of the band before it plus that band's height, the first band
  has the height of the first image and every later band the caption height, and the
  canvas height is the height of the first image plus the number of further items
  times the caption height. The canvas height comes from this formula, not from adding
  up the band heights. The theorem states this twice: on the canvas and the bands of
  \<open>generatePreview\<close>, and on the layout in binary64, where every operation is
  rounded.
\<close>

theorem C4_bands_tile_and_canvas_height:
  fixes image0 :: FabricImage and w0 h0 :: js_number
  defines "fih \<equiv> firstImageHeight image0"
  defines "ch \<equiv> CAPTION_HEIGHT (firstImageHeight image0)"
  defines "fih64 \<equiv> firstImageHeight64 w0 h0"
  defines "ch64 \<equiv> CAPTION_HEIGHT64 (firstImageHeight64 w0 h0)"
  assumes "images st \<noteq> []" and "canvasRef st"
    and "Promise_all (map (\<lambda>img. loadFabricImage fromURL (url img)) (images st))
           = Inr (image0 # others)"
    and "draw_loop clone fih ch 0 0 (zip (image0 # others) (images st)) [] = Inr bands"
  shows "(\<exists>st' c. generatePreview fromURL clone st = Inr st' \<and> fabricCanvasRef st' = Some c \<and>
        objects c = objects_of bands \<and>
        canvas_height c = fih + (real (length (images st)) - 1) * ch) \<and>
     length bands = length (images st) \<and>
     topY (bands ! 0) = 0 \<and>
     (\<forall>i. Suc i < length bands \<longrightarrow>
        topY (bands ! Suc i) = topY (bands ! i) + heightPx (bands ! i)) \<and>
     heightPx (bands ! 0) = fih \<and>
     (\<forall>i. 0 < i \<and> i < length bands \<longrightarrow> heightPx (bands ! i) = ch) \<and>
     (\<exists>l. generatePreview64 ((w0, h0) # rest) = Some l \<and>
        length (bands64 l) = Suc (length rest) \<and>
        topY64 (bands64 l ! 0) = Num 0 \<and>
        (\<forall>i. Suc i < length (bands64 l) \<longrightarrow>
           topY64 (bands64 l ! Suc i)
             = js_add (topY64 (bands64 l ! i)) (heightPx64 (bands64 l ! i))) \<and>
        heightPx64 (bands64 l ! 0) = fih64 \<and>
        (\<forall>i. 0 < i \<and> i < length (bands64 l) \<longrightarrow> heightPx64 (bands64 l ! i) = ch64) \<and>
        canvas_height64 l
          = js_add fih64 (js_mul (js_sub (Num (real (Suc (length rest)))) (Num 1)) ch64))"
proof -
  let ?zs = "zip (image0 # others) (images st)"
  note len0 = loaded_length[OF assms(7)]
  have len: "length ?zs = length (images st)" using len0 by simp
  have ne: "?zs \<noteq> []" using assms(5) by (cases "images st") auto
  have l: "length bands = length (images st)"
    using draw_loop_length[OF assms(8)] len by simp
  have t0: "topY (bands ! 0) = 0" by (rule draw_loop_first[OF assms(8) ne])
  have step: "topY (bands ! Suc i) = topY (bands ! i) + heightPx (bands ! i)"
    if "Suc i < length bands" for i
    using draw_loop_next[OF assms(8)] that l len by simp
  have h: "heightPx (bands ! i) = (if i = 0 then fih else ch)" if "i < length bands" for i
    using draw_loop_heights[OF assms(8)] that l len by simp
  have h0: "heightPx (bands ! 0) = fih" using h[of 0] l assms(5) by simp
  from generatePreview_canvas[OF assms(5-7) assms(8)[unfolded fih_def ch_def]]
  obtain st' c where g: "generatePreview fromURL clone st = Inr st'" "fabricCanvasRef st' = Some c"
    "objects c = objects_of bands"
    "canvas_height c = fih + (real (length (images st)) - 1) * ch"
    unfolding fih_def ch_def by blast
  have 1: "\<exists>st' c. generatePreview fromURL clone st = Inr st' \<and> fabricCanvasRef st' = Some c \<and>
        objects c = objects_of bands \<and>
        canvas_height c = fih + (real (length (images st)) - 1) * ch"
    using g by (intro exI[of _ st'] exI[of _ c]) simp
  note 2 = generatePreview64_tiling[of w0 h0 rest, folded fih64_def ch64_def]
  show ?thesis using 1 l t0 step h h0 2 by simp
qed

theorem C4_witness:
  "(\<exists>st' c. generatePreview sample_fromURL Inr (sample_state sample_items) = Inr st' \<and>
      fabricCanvasRef st' = Some c \<and> objects c = objects_of sample_bands \<and>
      canvas_height c = 640) \<and>
   length sample_bands = 3 \<and> topY (sample_bands ! 0) = 0 \<and> topY (sample_bands ! 1) = 480 \<and>
   topY (sample_bands ! 2) = 560 \<and>
   (\<exists>l. generatePreview64 wide_images = Some l \<and> length (bands64 l) = 3 \<and>
      topY64 (bands64 l ! 0) = Num 0 \<and>
      topY64 (bands64 l ! 1) = Num (5026338869833143 / 2 ^ 43) \<and>
      topY64 (bands64 l ! 2) = Num (2890144850154057 / 2 ^ 42) \<and>
      heightPx64 (bands64 l ! 2) = Num (6031606643799771 / 2 ^ 46) \<and>
      canvas_height64 l = Num (3267120265391543 / 2 ^ 42))"
proof -
  note c = C4_bands_tile_and_canvas_height[OF sample_nonempty sample_clone_run(1) sample_draw_run,
      of "Num 1400" "Num 1000" "[(Num 1400, Num 1000), (Num 1400, Num 1000)]"]
  from c have l: "length sample_bands = 3" by (simp add: sample_count)
  from c have t0: "topY (sample_bands ! 0) = 0" and h0: "heightPx (sample_bands ! 0) = 480"
    by (simp_all add: sample_layout)
  from c l have h1: "heightPx (sample_bands ! 1) = 80" by (simp add: sample_layout)
  from c l have "topY (sample_bands ! Suc 0) = topY (sample_bands ! 0) + heightPx (sample_bands ! 0)"
    by simp
  then have t1: "topY (sample_bands ! 1) = 480" using t0 h0 by simp
  from c l have "topY (sample_bands ! Suc 1) = topY (sample_bands ! 1) + heightPx (sample_bands ! 1)"
    by simp
  then have t2: "topY (sample_bands ! 2) = 560" using t1 h1 by (simp add: numeral_2_eq_2)
  from c have r: "\<exists>st' c. generatePreview sample_fromURL Inr (sample_state sample_items) = Inr st' \<and>
      fabricCanvasRef st' = Some c \<and> objects c = objects_of sample_bands \<and>
      canvas_height c = 640"
    by (auto simp: sample_layout sample_count)
  from c obtain l64 where g: "generatePreview64 wide_images = Some l64"
    and n: "length (bands64 l64) = 3"
    and z: "topY64 (bands64 l64 ! 0) = Num 0"
    and s: "\<forall>i. Suc i < length (bands64 l64) \<longrightarrow>
           topY64 (bands64 l64 ! Suc i)
             = js_add (topY64 (bands64 l64 ! i)) (heightPx64 (bands64 l64 ! i))"
    and f: "heightPx64 (bands64 l64 ! 0) = firstImageHeight64 (Num 1400) (Num 1000)"
    and k: "\<forall>i. 0 < i \<and> i < length (bands64 l64) \<longrightarrow>
           heightPx64 (bands64 l64 ! i) = CAPTION_HEIGHT64 (firstImageHeight64 (Num 1400) (Num 1000))"
    and t: "canvas_height64 l64 = js_add (firstImageHeight64 (Num 1400) (Num 1000))
             (js_mul (js_sub (Num (real (Suc (length [(Num 1400, Num 1000), (Num 1400, Num 1000)]))))
                (Num 1)) (CAPTION_HEIGHT64 (firstImageHeight64 (Num 1400) (Num 1000))))"
    unfolding wide_images_def by (auto simp del: js_add.simps js_mul.simps)
  have f': "heightPx64 (bands64 l64 ! 0) = Num (5026338869833143 / 2 ^ 43)"
    unfolding f wide_first_height ..
  have k1: "heightPx64 (bands64 l64 ! 1) = Num (6031606643799771 / 2 ^ 46)"
    and k2: "heightPx64 (bands64 l64 ! 2) = Num (6031606643799771 / 2 ^ 46)"
    using k n unfolding wide_first_height wide_caption_height by simp_all
  have y1: "topY64 (bands64 l64 ! 1) = Num (5026338869833143 / 2 ^ 43)"
  proof -
    from s n have "topY64 (bands64 l64 ! Suc 0)
        = js_add (topY64 (bands64 l64 ! 0)) (heightPx64 (bands64 l64 ! 0))" by simp
    then show ?thesis unfolding z f' wide_y1 by simp
  qed
  have y2: "topY64 (bands64 l64 ! 2) = Num (2890144850154057 / 2 ^ 42)"
  proof -
    from s n have "topY64 (bands64 l64 ! Suc 1)
        = js_add (topY64 (bands64 l64 ! 1)) (heightPx64 (bands64 l64 ! 1))" by simp
    then show ?thesis unfolding y1 k1 wide_y2 by (simp add: numeral_2_eq_2)
  qed
  have n3: "Suc (length [(Num 1400, Num 1000), (Num 1400, Num 1000)]) = 3" by simp
  have th: "canvas_height64 l64 = Num (3267120265391543 / 2 ^ 42)"
    using wide_total_height
    unfolding t n3 wide_first_height wide_caption_height totalHeight64_def .
  from r l t0 t1 t2 g n z y1 y2 k2 th show ?thesis by blast
qed

text \<open>
  Claim C5 says that band 0 has \<open>scaleX = scaleY = 800 / width\<close>. In binary64 it has
  not: for a first image of 300 by 200 pixels \<open>scaleX\<close> is 2.6666666666666665 and
  \<open>scaleY\<close>, computed as the height of the first band divided by the image height,
  is 2.666666666666666.
\<close>

theorem C5_scales_are_equal_counterexample:
  "scaleX64 (bands64 (the (generatePreview64 narrow_images)) ! 0) = Num (6004799503160661 / 2 ^ 51) \<and>
   scaleY64 (bands64 (the (generatePreview64 narrow_images)) ! 0) = Num (1501199875790165 / 2 ^ 49) \<and>
   scaleX64 (bands64 (the (generatePreview64 narrow_images)) ! 0)
     \<noteq> scaleY64 (bands64 (the (generatePreview64 narrow_images)) ! 0)"
proof -
  have b: "bands64 (the (generatePreview64 narrow_images)) ! 0 =
      \<lparr>topY64 = Num 0, heightPx64 = Num (2345624805922133 / 2 ^ 42), left64 = Num 0, top64 = Num 0,
       scaleX64 = js_div (Num 800) (js_or64 (Num 300) (Num 1)),
       scaleY64 = js_div (Num (2345624805922133 / 2 ^ 42)) (js_or64 (Num 200) (Num 1)),
       clip64 = None\<rparr>"
    unfolding narrow_images_def generatePreview64_Cons
    by (simp only: option.sel layout64.select_convs first_band64 narrow_first_height)
  have o: "js_or64 (Num 300) (Num 1) = Num 300" "js_or64 (Num 200) (Num 1) = Num 200"
    by (simp_all add: js_or64_Num)
  have x: "scaleX64 (bands64 (the (generatePreview64 narrow_images)) ! 0)
             = Num (6004799503160661 / 2 ^ 51)"
    by (simp only: b band64.select_convs o narrow_scale)
  have y: "scaleY64 (bands64 (the (generatePreview64 narrow_images)) ! 0)
             = Num (1501199875790165 / 2 ^ 49)"
    by (simp only: b band64.select_convs o narrow_scaleY)
  show ?thesis unfolding x y by simp
qed

text \<open>
  Claim C5, amended. When the first image has a width \<open>w\<close> and a height \<open>h\<close> that
  are present and not zero, the first object on the canvas is the loaded image moved to
  left 0 and top 0, with \<open>scaleX = 800 / w\<close> and \<open>scaleY = (h * (800 / w)) / h\<close>,
  the height of the first band divided by the image height; the loop sets no clip path
  on it. For a single item the canvas holds this image and its texts and nothing else,
  so no clip is set anywhere. The theorem states this twice: on the canvas of
  \<open>generatePreview\<close>, and on the layout in binary64, where the two scales are the
  results of these operations, each rounded.
\<close>

theorem C5_first_image_on_canvas:
  assumes "images st \<noteq> []" and "canvasRef st"
    and "Promise_all (map (\<lambda>img. loadFabricImage fromURL (url img)) (images st))
           = Inr (image0 # others)"
    and "draw_loop clone (firstImageHeight image0) (CAPTION_HEIGHT (firstImageHeight image0)) 0 0
           (zip (image0 # others) (images st)) [] = Inr bands"
    and "width image0 = Some w" and "w \<noteq> 0" and "height image0 = Some h" and "h \<noteq> 0"
  shows "(\<exists>st' c. generatePreview fromURL clone st = Inr st' \<and> fabricCanvasRef st' = Some c \<and>
        objects c =
          ImageObject (image0\<lparr>img_left := 0, img_top := 0, scaleX := 800 / w,
                               scaleY := h * (800 / w) / h, selectable := False\<rparr>)
            # map TextObject (texts (bands ! 0)) @ objects_of (drop 1 bands) \<and>
        (length (images st) = 1 \<longrightarrow>
           objects c =
             ImageObject (image0\<lparr>img_left := 0, img_top := 0, scaleX := 800 / w,
                                  scaleY := h * (800 / w) / h, selectable := False\<rparr>)
               # map TextObject (texts (bands ! 0)))) \<and>
     clipPath (image (bands ! 0)) = clipPath image0 \<and>
     (\<exists>l. generatePreview64 ((Num w, Num h) # sizes) = Some l \<and>
        bands64 l ! 0 =
          \<lparr>topY64 = Num 0, heightPx64 = js_mul (Num h) (js_div (Num 800) (Num w)),
           left64 = Num 0, top64 = Num 0,
           scaleX64 = js_div (Num 800) (Num w),
           scaleY64 = js_div (js_mul (Num h) (js_div (Num 800) (Num w))) (Num h),
           clip64 = None\<rparr> \<and>
        (sizes = [] \<longrightarrow> bands64 l = [bands64 l ! 0]))"
proof -
  note len = loaded_length[OF assms(3)]
  have i: "0 < length (images st)" using assms(1) by simp
  have ne: "zip (image0 # others) (images st) \<noteq> []" using assms(1) by (cases "images st") auto
  note b = draw_loop_band[OF assms(4) len i]
  have t0: "topY (bands ! 0) = 0" by (rule draw_loop_first[OF assms(4) ne])
  have sy: "firstImageHeight image0 / js_or (height image0) 1 = h * (800 / w) / h"
    using assms(5-8) by (simp add: firstImageHeight_def firstImageScale_def CANVAS_WIDTH_def)
  have sx: "js_or (width image0) 1 = w" using assms(5,6) by simp
  have im0: "image (bands ! 0) =
       image0\<lparr>img_left := 0, img_top := topY (bands ! 0),
              scaleX := 800 / js_or (width image0) 1,
              scaleY := firstImageHeight image0 / js_or (height image0) 1,
              selectable := False\<rparr>"
    using draw_band_first[OF b] by simp
  have im: "image (bands ! 0) =
       image0\<lparr>img_left := 0, img_top := 0, scaleX := 800 / w, scaleY := h * (800 / w) / h,
              selectable := False\<rparr>"
    unfolding im0 t0 sx sy ..
  have n: "length bands = length (images st)"
    using draw_loop_length[OF assms(4)] len by simp
  from generatePreview_canvas[OF assms(1-4)]
  obtain st' c where g: "generatePreview fromURL clone st = Inr st'" "fabricCanvasRef st' = Some c"
    "objects c = objects_of bands"
    by blast
  have o: "objects c = ImageObject (image (bands ! 0)) # map TextObject (texts (bands ! 0))
             @ objects_of (drop 1 bands)"
    using objects_of_band[of 0 bands] n i unfolding g(3) by (simp add: objects_of_def)
  have single: "objects_of (drop 1 bands) = []" if "length (images st) = 1"
    using that n by (simp add: objects_of_def)
  have 1: "\<exists>st' c. generatePreview fromURL clone st = Inr st' \<and> fabricCanvasRef st' = Some c \<and>
        objects c =
          ImageObject (image0\<lparr>img_left := 0, img_top := 0, scaleX := 800 / w,
                               scaleY := h * (800 / w) / h, selectable := False\<rparr>)
            # map TextObject (texts (bands ! 0)) @ objects_of (drop 1 bands) \<and>
        (length (images st) = 1 \<longrightarrow>
           objects c =
             ImageObject (image0\<lparr>img_left := 0, img_top := 0, scaleX := 800 / w,
                                  scaleY := h * (800 / w) / h, selectable := False\<rparr>)
               # map TextObject (texts (bands ! 0)))"
    using g(1,2) o single unfolding im by (intro exI[of _ st'] exI[of _ c]) simp
  have 2: "clipPath (image (bands ! 0)) = clipPath image0" unfolding im by simp
  note 3 = generatePreview64_first_band[OF assms(6,8), of sizes]
  from 1 2 3 show ?thesis by blast
qed

theorem C5_witness:
  "(\<exists>st' c. generatePreview sample_fromURL Inr (sample_state sample_items) = Inr st' \<and>
      fabricCanvasRef st' = Some c \<and>
      objects c =
        ImageObject (sample_image 1000 600\<lparr>img_left := 0, img_top := 0, scaleX := 4 / 5,
                        scaleY := 4 / 5, selectable := False\<rparr>)
          # map TextObject (texts (sample_bands ! 0)) @ objects_of (drop 1 sample_bands)) \<and>
   (\<exists>st' c. generatePreview sample_fromURL Inr (sample_state [sample_item ''a'' ''x'' []]) = Inr st' \<and>
      fabricCanvasRef st' = Some c \<and>
      map (\<lambda>x. case x of ImageObject im \<Rightarrow> clipPath im | TextObject t \<Rightarrow> None) (objects c)
        = [None, None, None]) \<and>
   (\<exists>l. generatePreview64 [(Num 1000, Num 600)] = Some l \<and>
      bands64 l = [\<lparr>topY64 = Num 0, heightPx64 = Num 480,
         left64 = Num 0, top64 = Num 0,
         scaleX64 = Num (3602879701896397 / 2 ^ 52),
         scaleY64 = Num (3602879701896397 / 2 ^ 52), clip64 = None\<rparr>])"
proof -
  have d: "width (sample_image 1000 600) = Some 1000" "(1000::real) \<noteq> 0"
    "height (sample_image 1000 600) = Some 600" "(600::real) \<noteq> 0"
    by (simp_all add: sample_image_def)
  let ?st1 = "sample_state [sample_item ''a'' ''x'' []]"
  let ?one = "projr (draw_loop Inr 480 80 0 0 (zip [sample_image 1000 600] [sample_item ''a'' ''x'' []]) [])"
  have s1: "images ?st1 \<noteq> []" "canvasRef ?st1" "length (images ?st1) = 1"
    by (simp_all add: sample_state_fields)
  have p1: "Promise_all (map (\<lambda>img. loadFabricImage sample_fromURL (url img)) (images ?st1))
             = Inr (sample_image 1000 600 # [])"
    by (simp add: sample_state_fields sample_item_def sample_fromURL_def loadFabricImage_def)
  have r1: "draw_loop Inr (firstImageHeight (sample_image 1000 600))
             (CAPTION_HEIGHT (firstImageHeight (sample_image 1000 600))) 0 0
             (zip (sample_image 1000 600 # []) (images ?st1)) [] = Inr ?one"
    by (simp add: sample_layout sample_state_fields draw_band_def Let_def)
  have t1: "texts (?one ! 0) = [zhBackgroundText ''x'' 425, zhText ''x'' 425]"
    by (simp add: draw_band_def Let_def captions_def sample_item_def)
  note a = C5_first_image_on_canvas[OF sample_nonempty sample_clone_run(1) sample_draw_run d,
      of "[]"]
  note b = C5_first_image_on_canvas[OF s1(1,2) p1 r1 d, of "[]"]
  from a have 1: "\<exists>st' c. generatePreview sample_fromURL Inr (sample_state sample_items) = Inr st' \<and>
      fabricCanvasRef st' = Some c \<and>
      objects c =
        ImageObject (sample_image 1000 600\<lparr>img_left := 0, img_top := 0, scaleX := 4 / 5,
                        scaleY := 4 / 5, selectable := False\<rparr>)
          # map TextObject (texts (sample_bands ! 0)) @ objects_of (drop 1 sample_bands)"
    by auto
  from b s1(3) obtain st' c where
    g: "generatePreview sample_fromURL Inr ?st1 = Inr st'" "fabricCanvasRef st' = Some c"
    and ob: "objects c =
        ImageObject (sample_image 1000 600\<lparr>img_left := 0, img_top := 0, scaleX := 800 / 1000,
                        scaleY := 600 * (800 / 1000) / 600, selectable := False\<rparr>)
          # map TextObject (texts (?one ! 0))"
    by blast
  have "map (\<lambda>x. case x of ImageObject im \<Rightarrow> clipPath im | TextObject t \<Rightarrow> None) (objects c)
        = [None, None, None]"
    unfolding ob t1 by (simp add: sample_image_def)
  with g have 2: "\<exists>st' c. generatePreview sample_fromURL Inr ?st1 = Inr st' \<and>
      fabricCanvasRef st' = Some c \<and>
      map (\<lambda>x. case x of ImageObject im \<Rightarrow> clipPath im | TextObject t \<Rightarrow> None) (objects c)
        = [None, None, None]"
    by (intro exI[of _ st'] exI[of _ c]) simp
  from a obtain l where l: "generatePreview64 [(Num 1000, Num 600)] = Some l"
    "bands64 l ! 0 =
          \<lparr>topY64 = Num 0, heightPx64 = js_mul (Num 600) (js_div (Num 800) (Num 1000)),
           left64 = Num 0, top64 = Num 0,
           scaleX64 = js_div (Num 800) (Num 1000),
           scaleY64 = js_div (js_mul (Num 600) (js_div (Num 800) (Num 1000))) (Num 600),
           clip64 = None\<rparr>"
    "bands64 l = [bands64 l ! 0]"
    by (auto simp del: js_div.simps js_mul.simps)
  have "bands64 l = [\<lparr>topY64 = Num 0, heightPx64 = Num 480,
         left64 = Num 0, top64 = Num 0,
         scaleX64 = Num (3602879701896397 / 2 ^ 52),
         scaleY64 = Num (3602879701896397 / 2 ^ 52), clip64 = None\<rparr>]"
    using l(3) unfolding l(2) sample_scale64 sample_height64 sample_scaleY64 .
  with l(1) have 3: "\<exists>l. generatePreview64 [(Num 1000, Num 600)] = Some l \<and>
      bands64 l = [\<lparr>topY64 = Num 0, heightPx64 = Num 480,
         left64 = Num 0, top64 = Num 0,
         scaleX64 = Num (3602879701896397 / 2 ^ 52),
         scaleY64 = Num (3602879701896397 / 2 ^ 52), clip64 = None\<rparr>]"
    by blast
  from 1 2 3 show ?thesis by blast
qed

text \<open>
  Claim C6. On the canvas that \<open>generatePreview\<close> leaves, the image of band \<open>i\<close>
  is followed by no text when both captions of the item are empty. When only the
  primary caption is non-empty it is followed by exactly two texts: first the glow
  copy, filled \<open>#003153\<close> at opacity 0.8 with a shadow offset of (-1, -1), then the
  white text with a shadow offset of (2, 2), both with the primary caption as content.
  Whenever the primary caption is non-empty, the glow copy comes right after the image
  and the white text right after the glow copy.
\<close>

theorem C6_text_objects_on_canvas:
  fixes image0 :: FabricImage and bands :: "band list" and st :: app_state and i :: nat
  defines "primary \<equiv> zh (caption (images st ! i))"
  defines "secondary \<equiv> jp (caption (images st ! i))"
  defines "bandBottom \<equiv> topY (bands ! i) + heightPx (bands ! i)"
  defines "glow \<equiv> \<lambda>y.
     \<lparr>content = primary, txt_left = 800 / 2, txt_top = y, fontSize = 36,
      fontFamily = ''Yuanti, Noto Sans TC, sans-serif'', fontWeight = ''bold'',
      fill = ''#003153'', textAlign = ''center'', originX = ''center'',
      txt_selectable = False, opacity = 0.8,
      shadow = \<lparr>color = ''#003153'', blur = 2, offsetX = - 1, offsetY = - 1\<rparr>\<rparr>"
  defines "white \<equiv> \<lambda>y.
     \<lparr>content = primary, txt_left = 800 / 2, txt_top = y, fontSize = 36,
      fontFamily = ''Yuanti, Noto Sans TC, sans-serif'', fontWeight = ''bold'',
      fill = ''white'', textAlign = ''center'', originX = ''center'',
      txt_selectable = False, opacity = 1,
      shadow = \<lparr>color = ''#003153'', blur = 2, offsetX = 2, offsetY = 2\<rparr>\<rparr>"
  assumes "images st \<noteq> []" and "canvasRef st"
    and "Promise_all (map (\<lambda>img. loadFabricImage fromURL (url img)) (images st))
           = Inr (image0 # others)"
    and "draw_loop clone (firstImageHeight image0) (CAPTION_HEIGHT (firstImageHeight image0)) 0 0
           (zip (image0 # others) (images st)) [] = Inr bands"
    and "i < length (images st)"
  shows "\<exists>st' c. generatePreview fromURL clone st = Inr st' \<and> fabricCanvasRef st' = Some c \<and>
     (primary = [] \<and> secondary = [] \<longrightarrow>
        objects c = objects_of (take i bands) @ [ImageObject (image (bands ! i))]
          @ objects_of (drop (Suc i) bands)) \<and>
     (primary \<noteq> [] \<and> secondary = [] \<longrightarrow>
        objects c = objects_of (take i bands)
          @ [ImageObject (image (bands ! i)),
             TextObject (glow (bandBottom - 55)), TextObject (white (bandBottom - 55))]
          @ objects_of (drop (Suc i) bands)) \<and>
     (primary \<noteq> [] \<longrightarrow>
        (\<exists>after. objects c = objects_of (take i bands)
          @ [ImageObject (image (bands ! i)),
             TextObject (glow (bandBottom - (if secondary \<noteq> [] then 65 else 55))),
             TextObject (white (bandBottom - (if secondary \<noteq> [] then 65 else 55)))]
          @ after))"
proof -
  note len = loaded_length[OF assms(8)]
  note t = draw_loop_texts[OF assms(9) len assms(10)]
  have n: "i < length bands"
    using draw_loop_length[OF assms(9)] len assms(10) by simp
  from generatePreview_canvas[OF assms(6-9)]
  obtain st' c where g: "generatePreview fromURL clone st = Inr st'" "fabricCanvasRef st' = Some c"
    "objects c = objects_of bands"
    by blast
  have o: "objects c = objects_of (take i bands)
          @ ImageObject (image (bands ! i)) # map TextObject (texts (bands ! i))
          @ objects_of (drop (Suc i) bands)"
    unfolding g(3) by (rule objects_of_band[OF n])
  have zb: "zhBackgroundText primary y = glow y" for y
    by (simp add: zhBackgroundText_def glow_def CANVAS_WIDTH_def)
  have zt: "zhText primary y = white y" for y
    by (simp add: zhText_def white_def CANVAS_WIDTH_def)
  have 1: "objects c = objects_of (take i bands) @ [ImageObject (image (bands ! i))]
          @ objects_of (drop (Suc i) bands)" if "primary = [] \<and> secondary = []"
    using that unfolding o t primary_def secondary_def by simp
  have 2: "objects c = objects_of (take i bands)
          @ [ImageObject (image (bands ! i)),
             TextObject (glow (bandBottom - 55)), TextObject (white (bandBottom - 55))]
          @ objects_of (drop (Suc i) bands)" if "primary \<noteq> [] \<and> secondary = []"
    using that unfolding o t zb[symmetric] zt[symmetric] primary_def secondary_def bandBottom_def
    by simp
  have 3: "\<exists>after. objects c = objects_of (take i bands)
          @ [ImageObject (image (bands ! i)),
             TextObject (glow (bandBottom - (if secondary \<noteq> [] then 65 else 55))),
             TextObject (white (bandBottom - (if secondary \<noteq> [] then 65 else 55)))]
          @ after" if "primary \<noteq> []"
    using that unfolding o t zb[symmetric] zt[symmetric] primary_def secondary_def bandBottom_def
    by simp
  from g(1,2) 1 2 3 show ?thesis by blast
qed

theorem C6_witness:
  "(\<exists>st' c. generatePreview sample_fromURL Inr (sample_state sample_items) = Inr st' \<and>
      fabricCanvasRef st' = Some c \<and>
      objects c = objects_of (take 0 sample_bands) @ [ImageObject (image (sample_bands ! 0))]
        @ objects_of (drop 1 sample_bands)) \<and>
   (\<exists>st' c. generatePreview sample_fromURL Inr (sample_state sample_items) = Inr st' \<and>
      fabricCanvasRef st' = Some c \<and>
      objects c = objects_of (take 1 sample_bands)
        @ [ImageObject (image (sample_bands ! 1)),
           TextObject (zhBackgroundText ''x'' 505), TextObject (zhText ''x'' 505)]
        @ objects_of (drop 2 sample_bands)) \<and>
   (\<exists>st' c after. generatePreview sample_fromURL Inr (sample_state sample_items) = Inr st' \<and>
      fabricCanvasRef st' = Some c \<and>
      objects c = objects_of (take 2 sample_bands)
        @ [ImageObject (image (sample_bands ! 2)),
           TextObject (zhBackgroundText ''y'' 575), TextObject (zhText ''y'' 575)]
        @ after)"
proof -
  have i: "0 < length (images (sample_state sample_items))"
    "1 < length (images (sample_state sample_items))"
    "2 < length (images (sample_state sample_items))"
    by (simp_all add: sample_count)
  note t = C6_text_objects_on_canvas[OF sample_nonempty sample_clone_run(1) sample_draw_run]
  from t[OF i(1)] have a: "\<exists>st' c. generatePreview sample_fromURL Inr (sample_state sample_items) = Inr st' \<and>
      fabricCanvasRef st' = Some c \<and>
      objects c = objects_of (take 0 sample_bands) @ [ImageObject (image (sample_bands ! 0))]
        @ objects_of (drop 1 sample_bands)"
    unfolding sample_captions by auto
  from t[OF i(2)] have b: "\<exists>st' c. generatePreview sample_fromURL Inr (sample_state sample_items) = Inr st' \<and>
      fabricCanvasRef st' = Some c \<and>
      objects c = objects_of (take 1 sample_bands)
        @ [ImageObject (image (sample_bands ! 1)),
           TextObject (zhBackgroundText ''x'' 505), TextObject (zhText ''x'' 505)]
        @ objects_of (drop 2 sample_bands)"
    unfolding sample_captions
    by (auto simp: zhBackgroundText_def zhText_def CANVAS_WIDTH_def sample_bottoms numeral_2_eq_2)
  from t[OF i(3)] have c: "\<exists>st' c after. generatePreview sample_fromURL Inr (sample_state sample_items) = Inr st' \<and>
      fabricCanvasRef st' = Some c \<and>
      objects c = objects_of (take 2 sample_bands)
        @ [ImageObject (image (sample_bands ! 2)),
           TextObject (zhBackgroundText ''y'' 575), TextObject (zhText ''y'' 575)]
        @ after"
    unfolding sample_captions
    by (auto simp: zhBackgroundText_def zhText_def CANVAS_WIDTH_def sample_bottoms)
  from a b c show ?thesis by blast
qed

text \<open>
  Claim C7 says that an empty list makes the call fail with an error. It does not: on
  the empty sample state the promise resolves.
\<close>

theorem C7_empty_list_is_rejected_counterexample:
  "\<not> isl (generatePreview sample_fromURL Inr (sample_state []))"
  by (simp add: generatePreview_def sample_state_def)

text \<open>
  Claim C7, amended. With an empty list \<open>generatePreview\<close> returns at once without an
  error and leaves the state as it was: no canvas is created, the busy flag is not set,
  nothing is logged.
\<close>

theorem C7_empty_list_returns_unchanged:
  assumes "images st = []"
  shows "generatePreview fromURL clone st = Inr st"
  using assms by (simp add: generatePreview_def)

theorem C7_witness:
  "generatePreview sample_fromURL Inr (sample_state []) = Inr (sample_state []) \<and>
   fabricCanvasRef (sample_state []) = None"
proof -
  have "images (sample_state []) = []" by (simp add: sample_state_def)
  from C7_empty_list_returns_unchanged[OF this, of sample_fromURL Inr]
  show ?thesis by (simp add: sample_state_def)
qed




text \<open>
  Claim C9 says that the image is read back with no deferred step after the last draw
  call. On the sample state the call returns with the old preview still in place and
  the read-back waiting in a timer of 100 milliseconds.
\<close>

theorem C9_readback_is_synchronous_counterexample:
  "previewUrl (projr (generatePreview sample_fromURL Inr (sample_state sample_items))) = ''old'' \<and>
   isGenerating (projr (generatePreview sample_fromURL Inr (sample_state sample_items))) \<and>
   map fst (timers (projr (generatePreview sample_fromURL Inr (sample_state sample_items))))
     = [100]"
proof -
  from generatePreview_draws[OF sample_nonempty sample_clone_run(1) sample_draw_run]
  obtain st' c where
    "generatePreview sample_fromURL Inr (sample_state sample_items) = Inr st'"
    "previewUrl st' = previewUrl (sample_state sample_items)" "isGenerating st'"
    "timers st' = timers (sample_state sample_items) @ [(100, c)]"
    by blast
  then show ?thesis by (simp add: sample_state_fields)
qed

text \<open>
  Claim C9, amended. After all bands are drawn the canvas is rendered at once, and the
  read-back is handed to a timer of 100 milliseconds: on return the preview is
  unchanged and the busy flag still set; when that timer is the next to fire, its
  callback stores the data URL of the finished canvas as the preview and clears the
  busy flag.
\<close>

theorem C9_readback_is_deferred_to_a_timer:
  assumes "images st \<noteq> []" and "canvasRef st"
    and "Promise_all (map (\<lambda>img. loadFabricImage fromURL (url img)) (images st))
           = Inr (image0 # others)"
    and "draw_loop clone (firstImageHeight image0) (CAPTION_HEIGHT (firstImageHeight image0)) 0 0
           (zip (image0 # others) (images st)) [] = Inr bands"
  shows "\<exists>st' c. generatePreview fromURL clone st = Inr st' \<and>
     fabricCanvasRef st' = Some c \<and> objects c = objects_of bands \<and> rendered c \<and>
     previewUrl st' = previewUrl st \<and> isGenerating st' \<and>
     timers st' = timers st @ [(100, c)] \<and>
     (timers st = [] \<longrightarrow>
        previewUrl (fire_timer toDataURL st') = toDataURL c \<and>
        \<not> isGenerating (fire_timer toDataURL st') \<and>
        timers (fire_timer toDataURL st') = [])"
proof -
  from generatePreview_draws[OF assms] obtain st' c where
    g: "generatePreview fromURL clone st = Inr st'" "fabricCanvasRef st' = Some c"
       "objects c = objects_of bands" "rendered c" "previewUrl st' = previewUrl st"
       "isGenerating st'" "timers st' = timers st @ [(100, c)]"
    by blast
  have "previewUrl (fire_timer toDataURL st') = toDataURL c \<and>
        \<not> isGenerating (fire_timer toDataURL st') \<and>
        timers (fire_timer toDataURL st') = []" if "timers st = []"
    using that g(7) by (simp add: fire_timer_def)
  with g show ?thesis by blast
qed

theorem C9_witness:
  "\<exists>st' c. generatePreview sample_fromURL Inr (sample_state sample_items) = Inr st' \<and>
     fabricCanvasRef st' = Some c \<and> objects c = objects_of sample_bands \<and> rendered c \<and>
     previewUrl st' = ''old'' \<and> timers st' = [(100, c)] \<and>
     previewUrl (fire_timer (\<lambda>c. ''data:image/png'') st') = ''data:image/png'' \<and>
     \<not> isGenerating (fire_timer (\<lambda>c. ''data:image/png'') st')"
proof -
  let ?st = "sample_state sample_items"
  have 1: "images ?st \<noteq> []" by (simp add: sample_state_fields sample_items_def)
  have 2: "canvasRef ?st" by (simp add: sample_state_fields)
  have 3: "Promise_all (map (\<lambda>img. loadFabricImage sample_fromURL (url img)) (images ?st))
             = Inr (sample_image 1000 600 # [sample_image 400 300, sample_image 1000 600])"
    by (simp add: sample_state_fields sample_loading)
  have 4: "draw_loop Inr (firstImageHeight (sample_image 1000 600))
             (CAPTION_HEIGHT (firstImageHeight (sample_image 1000 600))) 0 0
             (zip (sample_image 1000 600 # [sample_image 400 300, sample_image 1000 600]) (images ?st)) []
             = Inr sample_bands"
    using sample_run by (simp add: sample_state_fields sample_layout sample_loaded_def)
  from C9_readback_is_deferred_to_a_timer[OF 1 2 3 4, of "\<lambda>c. ''data:image/png''"]
  show ?thesis by (auto simp: sample_state_fields)
qed

text \<open>
  Claim C10. For every list of at most \<open>2 ^ 32\<close> images whose widths and heights are
  plausible sizes (missing, zero, or from 1 to \<open>2 ^ 53\<close>), the layout in binary64
  is total and all its numbers are finite: an empty list computes nothing, and for a
  non-empty list the canvas height and, in every band, \<open>currentY\<close>, the band height,
  left, top, \<open>scaleX\<close> and \<open>scaleY\<close> are finite. The divisor \<open>width || 1\<close> is never
  zero and never \<open>NaN\<close>; a width that is missing or zero gives the scale 800, and a
  missing height of the first image gives the first band the height 600 times the
  scale.
\<close>

theorem C10_layout_numbers_are_finite:
  assumes "\<forall>img \<in> set loadedImages. plausible_size (fst img) \<and> plausible_size (snd img)"
    and "length loadedImages \<le> 2 ^ 32"
  shows "(loadedImages = [] \<longrightarrow> generatePreview64 loadedImages = None) \<and>
     (loadedImages \<noteq> [] \<longrightarrow>
        (\<exists>l. generatePreview64 loadedImages = Some l \<and>
           length (bands64 l) = length loadedImages \<and>
           is_finite (canvas_height64 l) \<and>
           (\<forall>b \<in> set (bands64 l). band_finite b))) \<and>
     js_or64 w (Num 1) \<noteq> Num 0 \<and> js_or64 w (Num 1) \<noteq> NaN \<and>
     (w = NaN \<or> w = Num 0 \<longrightarrow> firstImageScale64 w = Num 800) \<and>
     (h = NaN \<longrightarrow> firstImageHeight64 w h = js_mul (Num 600) (firstImageScale64 w))"
proof -
  have 1: "loadedImages = [] \<longrightarrow> generatePreview64 loadedImages = None"
    by (simp add: generatePreview64_def)
  have 2: "\<exists>l. generatePreview64 loadedImages = Some l \<and>
           length (bands64 l) = length loadedImages \<and>
           is_finite (canvas_height64 l) \<and>
           (\<forall>b \<in> set (bands64 l). band_finite b)" if ne: "loadedImages \<noteq> []"
  proof -
    from ne obtain w0 h0 rest where l: "loadedImages = (w0, h0) # rest"
      by (cases loadedImages) auto
    have pl: "plausible_size w0" "plausible_size h0"
      and rest: "\<forall>img \<in> set rest. plausible_size (fst img) \<and> plausible_size (snd img)"
      using assms(1) by (simp_all add: l)
    define fih where "fih = firstImageHeight64 w0 h0"
    have fih: "mag_le fih (2 ^ 63)"
      unfolding fih_def firstImageHeight64_def firstImageScale64_def
      by (rule scaled_height_mag_le[OF pl])
    from caption_height_range[OF fih] obtain c where
      c: "CAPTION_HEIGHT64 fih = Num c" "80 \<le> c" "c \<le> 120" by blast
    from plausible_or[OF pl(2), of 1] obtain r where
      r: "js_or64 h0 (Num 1) = Num r" "1 \<le> r" by auto
    have sy: "mag_le (js_div fih (js_or64 h0 (Num 1))) (2 ^ 63)"
      unfolding r(1) by (rule js_div_mag_le[OF fih r(2)]) simp
    have z: "mag_le (Num 0) 0" by simp
    have y1: "mag_le (js_add (Num 0) fih) (2 ^ 100)"
      by (rule js_add_mag_le[OF z fih]) simp_all
    have b0: "band_finite \<lparr>topY64 = Num 0, heightPx64 = fih, left64 = Num 0, top64 = Num 0,
        scaleX64 = js_div (Num 800) (js_or64 w0 (Num 1)),
        scaleY64 = js_div fih (js_or64 h0 (Num 1)), clip64 = None\<rparr>"
      using mag_le_finite[OF fih] mag_le_finite[OF scale_mag_le[OF pl(1)]] mag_le_finite[OF sy]
      by (simp add: band_finite_def)
    have later: "\<forall>b \<in> set (draw_loop64 fih (Num c) (Suc 0) (js_add (Num 0) fih) rest). band_finite b"
      by (rule later_loop_finite[OF c(2,3) _ y1 rest]) simp
    have th: "is_finite (totalHeight64 fih (length loadedImages) (Num c))"
      by (rule total_height_finite[OF fih c(2,3) assms(2)])
    have g: "generatePreview64 loadedImages =
        Some \<lparr>canvas_width64 = Num 800,
              canvas_height64 = totalHeight64 fih (length loadedImages) (Num c),
              bands64 = draw_loop64 fih (Num c) 0 (Num 0) loadedImages\<rparr>"
      by (simp add: generatePreview64_def l fih_def Let_def c(1)[unfolded fih_def])
    have bs: "draw_loop64 fih (Num c) 0 (Num 0) loadedImages =
        \<lparr>topY64 = Num 0, heightPx64 = fih, left64 = Num 0, top64 = Num 0,
         scaleX64 = js_div (Num 800) (js_or64 w0 (Num 1)),
         scaleY64 = js_div fih (js_or64 h0 (Num 1)), clip64 = None\<rparr>
        # draw_loop64 fih (Num c) (Suc 0) (js_add (Num 0) fih) rest"
      by (simp add: l draw_band64_def)
    show ?thesis
      unfolding g using th b0 later by (simp add: bs draw_loop64_length) (simp add: l)
  qed
  have 3: "js_or64 w (Num 1) \<noteq> Num 0 \<and> js_or64 w (Num 1) \<noteq> NaN"
    by (simp add: js_or64_def)
  have 4: "w = NaN \<or> w = Num 0 \<longrightarrow> firstImageScale64 w = Num 800"
    by (auto simp: firstImageScale64_def js_or64_def round64_800)
  have 5: "h = NaN \<longrightarrow> firstImageHeight64 w h = js_mul (Num 600) (firstImageScale64 w)"
    by (simp add: firstImageHeight64_def js_or64_def)
  from 1 2 3 4 5 show ?thesis by blast
qed

theorem C10_witness:
  "(\<exists>l. generatePreview64 degenerate_sizes = Some l \<and> length (bands64 l) = 2 \<and>
      is_finite (canvas_height64 l) \<and> (\<forall>b \<in> set (bands64 l). band_finite b)) \<and>
   generatePreview64 [] = None \<and>
   firstImageScale64 (Num 0) = Num 800 \<and>
   firstImageHeight64 (Num 0) NaN = js_mul (Num 600) (Num 800)"
proof -
  have p: "\<forall>img \<in> set degenerate_sizes. plausible_size (fst img) \<and> plausible_size (snd img)"
    by (simp add: degenerate_sizes_def plausible_size_def)
  have n: "length degenerate_sizes \<le> 2 ^ 32" "degenerate_sizes \<noteq> []" "length degenerate_sizes = 2"
    by (simp_all add: degenerate_sizes_def)
  have e: "\<forall>img \<in> set ([] :: (js_number \<times> js_number) list). plausible_size (fst img) \<and> plausible_size (snd img)"
    "length ([] :: (js_number \<times> js_number) list) \<le> 2 ^ 32"
    by simp_all
  note a = C10_layout_numbers_are_finite[OF p n(1), of "Num 0" NaN]
  note b = C10_layout_numbers_are_finite[OF e, of "Num 0" NaN]
  from a n(2,3) have 1: "\<exists>l. generatePreview64 degenerate_sizes = Some l \<and> length (bands64 l) = 2 \<and>
      is_finite (canvas_height64 l) \<and> (\<forall>b \<in> set (bands64 l). band_finite b)"
    by auto
  from b have 2: "generatePreview64 [] = None" by simp
  from a have 3: "firstImageScale64 (Num 0) = Num 800" by simp
  from a have "firstImageHeight64 (Num 0) NaN = js_mul (Num 600) (firstImageScale64 (Num 0))"
    by simp
  with 1 2 3 show ?thesis by simp
qed

end
